theory Spec2Isabelle
  imports Complex_Main "HOL-Library.Sublist"
begin

section \<open>JavaScript numbers and values\<close>

text \<open>
  The form fields and results of \<^verbatim>\<open>App.vue\<close> are JavaScript numbers, that is IEEE 754
  double-precision values. A number is modelled as \<open>Fin x\<close> for a real \<open>x\<close>, one of the two
  infinities, or NaN; the doubles are the values \<open>Fin x\<close> that \<open>to_double\<close> returns, and a
  decimal literal of the source, such as \<^verbatim>\<open>5.7\<close>, is \<open>to_double 5.7\<close>. Every arithmetic
  operation computes the exact real result and rounds it with \<open>to_double\<close>.
  Zero carries no sign. The sign of a zero shows only when something is divided by it or
  when it is the base of a power; in the calculator the only divisor that can be zero is
  \<^verbatim>\<open>1 - factor\<close> and the only base is \<^verbatim>\<open>1 + monthlyRate\<close>, and both are \<^verbatim>\<open>+0\<close> when they
  are zero.
\<close>

datatype jsnum = Fin real | PosInf | NegInf | NaN

definition signed_inf :: "real \<Rightarrow> jsnum" where
  "signed_inf s = (if s < 0 then NegInf else PosInf)"

subsection \<open>Rounding a real to a double\<close>

text \<open>The nearest integer, and of two equally near integers the even one.\<close>

definition round_ties_even :: "real \<Rightarrow> int" where
  "round_ties_even y =
     (let n = \<lfloor>y\<rfloor>; r = y - of_int n
      in if r < 1 / 2 then n else if 1 / 2 < r then n + 1 else if even n then n else n + 1)"

text \<open>
  The exponent of the last place of the doubles around \<open>x\<close>: 52 binary places below the
  leading one, and never below \<open>2\<^sup>-\<^sup>1\<^sup>0\<^sup>7\<^sup>4\<close>, the spacing of the subnormal numbers.
\<close>

definition ulp_exponent :: "real \<Rightarrow> int" where
  "ulp_exponent x = max (\<lfloor>log 2 \<bar>x\<bar>\<rfloor> - 52) (- 1074)"

text \<open>
  The Number value for \<open>x\<close>: \<open>x\<close> rounded to the nearest multiple of its last place, ties
  to the even one, and an infinity when the rounded value reaches \<open>2\<^sup>1\<^sup>0\<^sup>2\<^sup>4\<close>.
\<close>

definition to_double :: "real \<Rightarrow> jsnum" where
  "to_double x =
     (if x = 0 then Fin 0
      else (let e = ulp_exponent x;
                y = of_int (round_ties_even (x / 2 powi e)) * 2 powi e
            in if 2 ^ 1024 \<le> \<bar>y\<bar> then signed_inf x else Fin y))"

subsection \<open>Values and arithmetic\<close>

text \<open>A form field holds whatever the input binding put there: a number, a string, null or undefined.\<close>

datatype jsval = JNumber jsnum | JString string | JNull | JUndefined

fun js_neg :: "jsnum \<Rightarrow> jsnum" where
  "js_neg (Fin x) = Fin (- x)"
| "js_neg PosInf = NegInf"
| "js_neg NegInf = PosInf"
| "js_neg NaN = NaN"

fun js_add :: "jsnum \<Rightarrow> jsnum \<Rightarrow> jsnum" where
  "js_add NaN b = NaN"
| "js_add a NaN = NaN"
| "js_add (Fin x) (Fin y) = to_double (x + y)"
| "js_add (Fin x) b = b"
| "js_add a (Fin y) = a"
| "js_add PosInf PosInf = PosInf"
| "js_add NegInf NegInf = NegInf"
| "js_add PosInf NegInf = NaN"
| "js_add NegInf PosInf = NaN"

definition js_sub :: "jsnum \<Rightarrow> jsnum \<Rightarrow> jsnum" where
  "js_sub a b = js_add a (js_neg b)"

text \<open>The sign of a number that is not NaN, as \<open>-1\<close>, \<open>0\<close> or \<open>1\<close>.\<close>

fun js_sign :: "jsnum \<Rightarrow> real" where
  "js_sign (Fin x) = sgn x"
| "js_sign PosInf = 1"
| "js_sign NegInf = - 1"
| "js_sign NaN = 0"

fun js_mul :: "jsnum \<Rightarrow> jsnum \<Rightarrow> jsnum" where
  "js_mul NaN b = NaN"
| "js_mul a NaN = NaN"
| "js_mul (Fin x) (Fin y) = to_double (x * y)"
| "js_mul a b = (if js_sign a * js_sign b = 0 then NaN else signed_inf (js_sign a * js_sign b))"

fun js_div :: "jsnum \<Rightarrow> jsnum \<Rightarrow> jsnum" where
  "js_div NaN b = NaN"
| "js_div a NaN = NaN"
| "js_div (Fin x) (Fin y) =
     (if y = 0 then (if x = 0 then NaN else signed_inf x) else to_double (x / y))"
| "js_div (Fin x) b = Fin 0"
| "js_div a (Fin y) = signed_inf (js_sign a * (if y < 0 then - 1 else 1))"
| "js_div a b = NaN"

text \<open>\<^verbatim>\<open>a <= b\<close> and \<^verbatim>\<open>a === b\<close> on numbers: false as soon as one side is NaN.\<close>

fun js_le :: "jsnum \<Rightarrow> jsnum \<Rightarrow> bool" where
  "js_le NaN b = False"
| "js_le a NaN = False"
| "js_le (Fin x) (Fin y) = (x \<le> y)"
| "js_le NegInf b = True"
| "js_le a PosInf = True"
| "js_le a b = False"

definition js_strict_eq :: "jsnum \<Rightarrow> jsnum \<Rightarrow> bool" where
  "js_strict_eq a b = (a \<noteq> NaN \<and> b \<noteq> NaN \<and> a = b)"

text \<open>
  \<^verbatim>\<open>Math.round\<close>: the nearest integer, and of two equally near integers the one closer
  to plus infinity. On a double the result is again a double, so nothing is rounded twice.
\<close>

fun Math_round :: "jsnum \<Rightarrow> jsnum" where
  "Math_round (Fin x) = Fin (of_int \<lfloor>x + 1 / 2\<rfloor>)"
| "Math_round a = a"

definition odd_integer :: "real \<Rightarrow> bool" where
  "odd_integer e = (e \<in> \<int> \<and> odd \<lfloor>e\<rfloor>)"

text \<open>
  \<^verbatim>\<open>Math.pow\<close>, case by case as the language defines \<^verbatim>\<open>Number::exponentiate\<close>. Where the
  language asks for an approximation of the real power, the double nearest to it is taken.
\<close>

definition Math_pow :: "jsnum \<Rightarrow> jsnum \<Rightarrow> jsnum" where
  "Math_pow base exponent =
     (case exponent of
        NaN \<Rightarrow> NaN
      | Fin e \<Rightarrow>
          if e = 0 then Fin 1
          else (case base of
                  NaN \<Rightarrow> NaN
                | PosInf \<Rightarrow> if 0 < e then PosInf else Fin 0
                | NegInf \<Rightarrow> if 0 < e then (if odd_integer e then NegInf else PosInf) else Fin 0
                | Fin b \<Rightarrow>
                    if b = 0 then (if 0 < e then Fin 0 else PosInf)
                    else if b < 0 \<and> e \<notin> \<int> then NaN
                    else if b < 0 then to_double (b powi \<lfloor>e\<rfloor>)
                    else to_double (b powr e))
      | PosInf \<Rightarrow>
          (case base of
             NaN \<Rightarrow> NaN
           | Fin b \<Rightarrow> if 1 < \<bar>b\<bar> then PosInf else if \<bar>b\<bar> = 1 then NaN else Fin 0
           | _ \<Rightarrow> PosInf)
      | NegInf \<Rightarrow>
          (case base of
             NaN \<Rightarrow> NaN
           | Fin b \<Rightarrow> if 1 < \<bar>b\<bar> then Fin 0 else if \<bar>b\<bar> = 1 then NaN else PosInf
           | _ \<Rightarrow> Fin 0))"

section \<open>The quote form and its result\<close>

text \<open>
  \<^verbatim>\<open>App.vue\<close> comes in two variants with the same form and the same result. The form's
  field \<^verbatim>\<open>term\<close> is \<open>termMonths\<close> here. The functions of the second variant that share a
  name with one of the first carry the suffix \<open>_2\<close>: \<open>num_2\<close> is its \<^verbatim>\<open>num\<close>, \<open>round_2\<close> its
  \<^verbatim>\<open>round\<close> and \<open>applyQuote_2\<close> its \<^verbatim>\<open>applyQuote\<close>.
\<close>

record QuoteForm =
  cost :: jsval
  profit :: jsval
  sellingPrice :: jsval
  termMonths :: jsval
  rate :: jsval
  outOfPocket :: jsval
  taxRate :: jsval
  quoteName :: string

record QuoteResult =
  taxes :: jsnum
  baseLoanAmount :: jsnum
  interest :: jsnum
  totalLoanAmount :: jsnum
  payment :: jsnum

text \<open>The initial form values of both variants of the component.\<close>

definition initial_form :: QuoteForm where
  "initial_form =
     \<lparr>cost = JNumber (Fin 26906), profit = JNumber (Fin 1500),
      sellingPrice = JNumber (Fin 28406), termMonths = JNumber (Fin 36),
      rate = JNumber (to_double 5.7), outOfPocket = JNumber (Fin 2000),
      taxRate = JNumber (Fin 7.5), quoteName = ''2025 Ford Escape''\<rparr>"

subsection \<open>Helpers of the first variant\<close>

text \<open>\<^verbatim>\<open>if (typeof value !== "number" || Number.isNaN(value)) return 0; return value;\<close>\<close>

fun safeNum :: "jsval \<Rightarrow> jsnum" where
  "safeNum (JNumber n) = (if n = NaN then Fin 0 else n)"
| "safeNum v = Fin 0"

text \<open>\<^verbatim>\<open>Math.round(value * 100) / 100\<close>\<close>

definition round2 :: "jsnum \<Rightarrow> jsnum" where
  "round2 v = js_div (Math_round (js_mul v (Fin 100))) (Fin 100)"

subsection \<open>Helpers of the second variant\<close>

text \<open>\<^verbatim>\<open>typeof v === "number" ? v : 0\<close>: NaN is a number and passes through.\<close>

fun num_2 :: "jsval \<Rightarrow> jsnum" where
  "num_2 (JNumber n) = n"
| "num_2 v = Fin 0"

definition round_2 :: "jsnum \<Rightarrow> jsnum" where
  "round_2 v = js_div (Math_round (js_mul v (Fin 100))) (Fin 100)"

subsection \<open>Synchronising cost, profit and selling price\<close>

definition updateSellingFromCostAndProfit :: "QuoteForm \<Rightarrow> QuoteForm" where
  "updateSellingFromCostAndProfit form =
     (let c = safeNum (cost form);
          p = safeNum (profit form)
      in form\<lparr>sellingPrice := JNumber (round2 (js_add c p))\<rparr>)"

definition updateProfitFromCostAndSelling :: "QuoteForm \<Rightarrow> QuoteForm" where
  "updateProfitFromCostAndSelling form =
     (let c = safeNum (cost form);
          selling = safeNum (sellingPrice form)
      in form\<lparr>profit := JNumber (round2 (js_sub selling c))\<rparr>)"

definition updateSelling :: "QuoteForm \<Rightarrow> QuoteForm" where
  "updateSelling form =
     form\<lparr>sellingPrice := JNumber (round_2 (js_add (num_2 (cost form)) (num_2 (profit form))))\<rparr>"

definition updateProfit :: "QuoteForm \<Rightarrow> QuoteForm" where
  "updateProfit form =
     form\<lparr>profit := JNumber (round_2 (js_sub (num_2 (sellingPrice form)) (num_2 (cost form))))\<rparr>"

subsection \<open>The finance calculation\<close>

text \<open>
  \<^verbatim>\<open>applyQuote\<close> reads the form and overwrites all five fields of the result, so it is a
  function from the form to the new result.
\<close>

definition applyQuote :: "QuoteForm \<Rightarrow> QuoteResult" where
  "applyQuote form =
     (let selling = safeNum (sellingPrice form);
          taxRatio = js_div (safeNum (taxRate form)) (Fin 100);
          yearlyRate = js_div (safeNum (rate form)) (Fin 100);
          months = safeNum (termMonths form);
          down = safeNum (outOfPocket form);
          taxes' = round2 (js_mul selling taxRatio);
          base = round2 (js_sub (js_add selling taxes') down);
          monthlyRate = js_div yearlyRate (Fin 12);
          payment' =
            (if js_le months (Fin 0) \<or> js_le base (Fin 0) then Fin 0
             else if js_strict_eq monthlyRate (Fin 0) then round2 (js_div base months)
             else (let factor = Math_pow (js_add (Fin 1) monthlyRate) (js_neg months)
                   in round2 (js_div (js_mul base monthlyRate) (js_sub (Fin 1) factor))));
          total = round2 (js_mul payment' months);
          interest' = round2 (js_sub total base)
      in \<lparr>taxes = taxes', baseLoanAmount = base, interest = interest',
          totalLoanAmount = total, payment = payment'\<rparr>)"

definition applyQuote_2 :: "QuoteForm \<Rightarrow> QuoteResult" where
  "applyQuote_2 form =
     (let selling = num_2 (sellingPrice form);
          taxRatio = js_div (num_2 (taxRate form)) (Fin 100);
          yearlyRate = js_div (num_2 (rate form)) (Fin 100);
          months = num_2 (termMonths form);
          down = num_2 (outOfPocket form);
          taxes' = round_2 (js_mul selling taxRatio);
          base = round_2 (js_sub (js_add selling taxes') down);
          monthlyRate = js_div yearlyRate (Fin 12);
          payment' =
            (if js_le months (Fin 0) \<or> js_le base (Fin 0) then Fin 0
             else if js_strict_eq monthlyRate (Fin 0) then round_2 (js_div base months)
             else (let factor = Math_pow (js_add (Fin 1) monthlyRate) (js_neg months)
                   in round_2 (js_div (js_mul base monthlyRate) (js_sub (Fin 1) factor))));
          total = round_2 (js_mul payment' months);
          interest' = round_2 (js_sub total base)
      in \<lparr>taxes = taxes', baseLoanAmount = base, interest = interest',
          totalLoanAmount = total, payment = payment'\<rparr>)"

text \<open>
  What both variants compute once the five fields are read: \<open>applyQuote\<close> is \<open>quote_core\<close>
  of the fields under \<open>safeNum\<close>, and \<open>applyQuote_2\<close> of the fields under \<open>num_2\<close>.
\<close>

definition quote_core :: "jsnum \<Rightarrow> jsnum \<Rightarrow> jsnum \<Rightarrow> jsnum \<Rightarrow> jsnum \<Rightarrow> QuoteResult" where
  "quote_core selling taxPercent ratePercent months down =
     (let taxRatio = js_div taxPercent (Fin 100);
          yearlyRate = js_div ratePercent (Fin 100);
          taxes' = round2 (js_mul selling taxRatio);
          base = round2 (js_sub (js_add selling taxes') down);
          monthlyRate = js_div yearlyRate (Fin 12);
          payment' =
            (if js_le months (Fin 0) \<or> js_le base (Fin 0) then Fin 0
             else if js_strict_eq monthlyRate (Fin 0) then round2 (js_div base months)
             else (let factor = Math_pow (js_add (Fin 1) monthlyRate) (js_neg months)
                   in round2 (js_div (js_mul base monthlyRate) (js_sub (Fin 1) factor))));
          total = round2 (js_mul payment' months);
          interest' = round2 (js_sub total base)
      in \<lparr>taxes = taxes', baseLoanAmount = base, interest = interest',
          totalLoanAmount = total, payment = payment'\<rparr>)"

subsection \<open>Enclosures\<close>

text \<open>A number is enclosed by two reals when it is finite and lies between them.\<close>

definition enclosed :: "jsnum \<Rightarrow> real \<Rightarrow> real \<Rightarrow> bool" where
  "enclosed v lo hi = (case v of Fin y \<Rightarrow> lo \<le> y \<and> y \<le> hi | _ \<Rightarrow> False)"

subsection \<open>Rounding as the specification words it\<close>

text \<open>
  Rounding half away from zero, written from the specification's words and not from the
  code: the magnitude is rounded to the nearest integer, a half going up, and the sign is
  put back. Rounding an amount at two decimals rounds its number of cents in this way.
\<close>

definition round_half_away_from_zero :: "real \<Rightarrow> real" where
  "round_half_away_from_zero x = sgn x * of_int \<lfloor>\<bar>x\<bar> + 1 / 2\<rfloor>"

section \<open>The quote store\<close>

text \<open>
  The server keeps all quotes in one JSON file. Both variants of the server (the plain
  one and the typed one) do the same reads, writes and comparisons, so one model serves
  for both. A handler is modelled as a function from the data file to its response and
  the data file it leaves: each request does its read, its change and its write with no
  other request in between. \<^verbatim>\<open>fs.writeFile\<close> is taken to succeed; a write that the
  file system rejects is not part of this model.
\<close>

subsection \<open>Identifiers: \<^verbatim>\<open>Date.now().toString()\<close>\<close>

text \<open>
  \<^verbatim>\<open>Date.now()\<close> is a whole number of milliseconds, far below \<open>10\<^sup>2\<^sup>1\<close> in magnitude, so
  its string is the plain decimal numeral, with a minus sign before the epoch.
\<close>

definition digit_char :: "nat \<Rightarrow> char" where
  "digit_char d = ''0123456789'' ! d"

fun digits :: "nat \<Rightarrow> string" where
  "digits n = (if n < 10 then [digit_char n] else digits (n div 10) @ [digit_char (n mod 10)])"

definition Number_toString :: "int \<Rightarrow> string" where
  "Number_toString i = (if i < 0 then CHR ''-'' # digits (nat (- i)) else digits (nat i))"

subsection \<open>Records and the data file\<close>

text \<open>
  A saved quote is the request body with \<^verbatim>\<open>id\<close> and \<^verbatim>\<open>createdAt\<close> set by the server,
  over whatever the body had there; \<open>quote_id\<close> is the field \<^verbatim>\<open>id\<close> and \<open>payload\<close> stands
  for every other field of the body.
\<close>

record 'b Quote =
  quote_id :: string
  createdAt :: string
  payload :: 'b

text \<open>
  The text of the file is either something \<^verbatim>\<open>JSON.parse\<close> rejects or the serialisation of
  a list of quotes (\<^verbatim>\<open>readQuotes\<close> is typed \<^verbatim>\<open>Promise<Quote[]>\<close>). The file itself may be
  absent or unreadable, and then \<^verbatim>\<open>fs.readFile\<close> throws.
\<close>

datatype 'b contents = Malformed | Serialised "'b Quote list"

datatype 'b data_file = NoFile | Unreadable | Holds "'b contents"

datatype js_error = IOError | SyntaxError

fun fs_readFile :: "'b data_file \<Rightarrow> js_error + 'b contents" where
  "fs_readFile (Holds data) = Inr data"
| "fs_readFile f = Inl IOError"

fun JSON_parse :: "'b contents \<Rightarrow> js_error + 'b Quote list" where
  "JSON_parse (Serialised quotes) = Inr quotes"
| "JSON_parse Malformed = Inl SyntaxError"

definition JSON_stringify :: "'b Quote list \<Rightarrow> 'b contents" where
  "JSON_stringify quotes = Serialised quotes"

text \<open>\<^verbatim>\<open>try { ... return JSON.parse(data); } catch { return []; }\<close>\<close>

definition readQuotes :: "'b data_file \<Rightarrow> 'b Quote list" where
  "readQuotes f =
     (case fs_readFile f of
        Inl e \<Rightarrow> []
      | Inr data \<Rightarrow> (case JSON_parse data of Inl e \<Rightarrow> [] | Inr quotes \<Rightarrow> quotes))"

definition writeQuotes :: "'b Quote list \<Rightarrow> 'b data_file \<Rightarrow> 'b data_file" where
  "writeQuotes quotes f = Holds (JSON_stringify quotes)"

subsection \<open>The three routes\<close>

datatype 'b response =
  Ok200 "'b Quote list" | Created201 "'b Quote" | NoContent204 | NotFound404

definition get_quotes :: "'b data_file \<Rightarrow> 'b response \<times> 'b data_file" where
  "get_quotes f = (let quotes = readQuotes f in (Ok200 quotes, f))"

text \<open>
  \<open>now\<close> is what \<^verbatim>\<open>Date.now()\<close> returns and \<open>isoNow\<close> what \<^verbatim>\<open>new Date().toISOString()\<close>
  returns while the request is handled.
\<close>

definition post_quotes ::
  "int \<Rightarrow> string \<Rightarrow> 'b \<Rightarrow> 'b data_file \<Rightarrow> 'b response \<times> 'b data_file" where
  "post_quotes now isoNow body f =
     (let newQuote = \<lparr>quote_id = Number_toString now, createdAt = isoNow, payload = body\<rparr>;
          quotes = readQuotes f;
          quotes' = newQuote # quotes
      in (Created201 newQuote, writeQuotes quotes' f))"

definition delete_quotes :: "string \<Rightarrow> 'b data_file \<Rightarrow> 'b response \<times> 'b data_file" where
  "delete_quotes i f =
     (let quotes = readQuotes f;
          filtered = filter (\<lambda>q. quote_id q \<noteq> i) quotes
      in if length filtered = length quotes then (NotFound404, f)
         else (NoContent204, writeQuotes filtered f))"

subsection \<open>Sequences of requests\<close>

datatype 'b request = GET | POST int string 'b | DELETE string

fun handle :: "'b request \<Rightarrow> 'b data_file \<Rightarrow> 'b response \<times> 'b data_file" where
  "handle GET f = get_quotes f"
| "handle (POST now isoNow body) f = post_quotes now isoNow body f"
| "handle (DELETE i) f = delete_quotes i f"

fun serve :: "'b request list \<Rightarrow> 'b data_file \<Rightarrow> 'b data_file" where
  "serve [] f = f"
| "serve (r # rs) f = serve rs (snd (handle r f))"

text \<open>The clock readings of the creations in a sequence of requests, in order.\<close>

fun clock_readings :: "'b request list \<Rightarrow> int list" where
  "clock_readings [] = []"
| "clock_readings (POST now isoNow body # rs) = now # clock_readings rs"
| "clock_readings (r # rs) = clock_readings rs"

text \<open>The records the creations of a sequence make, the latest first.\<close>

fun posted :: "'b request list \<Rightarrow> 'b Quote list" where
  "posted [] = []"
| "posted (POST now isoNow body # rs) =
     posted rs @ [\<lparr>quote_id = Number_toString now, createdAt = isoNow, payload = body\<rparr>]"
| "posted (r # rs) = posted rs"

declare digits.simps [simp del]

section \<open>Properties of rounding to a double\<close>

lemma round_ties_even_near: "\<bar>of_int (round_ties_even y) - y\<bar> \<le> 1 / 2"
  unfolding round_ties_even_def Let_def by (auto; linarith)

lemma round_ties_even_unique:
  assumes "\<bar>y - of_int m\<bar> < 1 / 2"
  shows "round_ties_even y = m"
proof (cases "of_int m \<le> y")
  case True
  with assms have "\<lfloor>y\<rfloor> = m" by (simp add: floor_eq_iff; linarith)
  with assms True show ?thesis by (simp add: round_ties_even_def Let_def; linarith)
next
  case False
  with assms have f: "\<lfloor>y\<rfloor> = m - 1" by (simp add: floor_eq_iff; linarith)
  with assms False show ?thesis by (simp add: round_ties_even_def Let_def; linarith)
qed

lemma round_ties_even_of_int: "round_ties_even (of_int m) = m"
  by (rule round_ties_even_unique) simp

lemma round_ties_even_minus: "round_ties_even (- y) = - round_ties_even y"
proof (cases "y \<in> \<int>")
  case True
  then obtain k :: int where "y = of_int k" by (auto elim: Ints_cases)
  then have "round_ties_even y = k" "round_ties_even (- y) = - k"
    using round_ties_even_of_int [of k] round_ties_even_of_int [of "- k"] by simp_all
  then show ?thesis by simp
next
  case False
  then have ne: "y \<noteq> of_int \<lfloor>y\<rfloor>" by (metis Ints_of_int)
  then have fl: "\<lfloor>- y\<rfloor> = - \<lfloor>y\<rfloor> - 1"
    by (simp add: floor_minus ceiling_altdef)
  have lo: "of_int \<lfloor>y\<rfloor> \<le> y" and hi: "y < of_int \<lfloor>y\<rfloor> + 1" by linarith+
  show ?thesis
    unfolding round_ties_even_def Let_def fl
    by (auto simp: algebra_simps)
qed

lemma log2_bracket:
  assumes "x \<noteq> 0"
  shows "2 powi \<lfloor>log 2 \<bar>x\<bar>\<rfloor> \<le> \<bar>x\<bar>" and "\<bar>x\<bar> < 2 powi (\<lfloor>log 2 \<bar>x\<bar>\<rfloor> + 1)"
proof -
  let ?k = "\<lfloor>log 2 \<bar>x\<bar>\<rfloor>"
  have pos: "0 < \<bar>x\<bar>" using assms by simp
  have "2 powr (of_int ?k) \<le> \<bar>x\<bar> \<and> \<bar>x\<bar> < 2 powr (of_int ?k + 1)"
    using floor_log_eq_powr_iff [OF pos, of 2 ?k] by simp
  moreover have "(2 :: real) powr (of_int ?k) = 2 powi ?k"
    by (rule powr_real_of_int') simp_all
  moreover have "(2 :: real) powr (of_int ?k + 1) = 2 powi (?k + 1)"
    using powr_real_of_int' [of "2 :: real" "?k + 1"] by simp
  ultimately show "2 powi ?k \<le> \<bar>x\<bar>" and "\<bar>x\<bar> < 2 powi (?k + 1)" by simp_all
qed

lemma log2_floorI:
  assumes "2 powi k \<le> \<bar>x\<bar>" and "\<bar>x\<bar> < 2 powi (k + 1)"
  shows "\<lfloor>log 2 \<bar>x\<bar>\<rfloor> = k"
proof -
  have pos: "0 < \<bar>x\<bar>"
    using assms(1) zero_less_power_int [of "2 :: real" k] by linarith
  have a: "(2 :: real) powr (of_int k) = 2 powi k"
    by (rule powr_real_of_int') simp_all
  have b: "(2 :: real) powr (of_int k + 1) = 2 powi (k + 1)"
    using powr_real_of_int' [of "2 :: real" "k + 1"] by simp
  show ?thesis
    using floor_log_eq_powr_iff [OF pos, of 2 k] assms a b by simp
qed

lemma ulp_exponent_ge: "- 1074 \<le> ulp_exponent x"
  by (simp add: ulp_exponent_def)

lemma scaled_below:
  assumes "x \<noteq> 0"
  shows "\<bar>x\<bar> < 2 powi (ulp_exponent x) * 2 ^ 53"
proof -
  let ?k = "\<lfloor>log 2 \<bar>x\<bar>\<rfloor>"
  have "?k + 1 \<le> ulp_exponent x + 53" by (simp add: ulp_exponent_def)
  then have "(2 :: real) powi (?k + 1) \<le> 2 powi (ulp_exponent x + 53)"
    by (intro power_int_increasing) simp_all
  also have "\<dots> = 2 powi (ulp_exponent x) * 2 ^ 53"
    by (simp add: power_int_add)
  finally show ?thesis using log2_bracket(2) [OF assms] by linarith
qed

lemma half_ulp_bound:
  assumes "x \<noteq> 0"
  shows "(2 :: real) powi (ulp_exponent x) / 2 \<le> max (\<bar>x\<bar> / 2 ^ 53) (1 / 2 ^ 1075)"
proof (cases "- 1074 \<le> \<lfloor>log 2 \<bar>x\<bar>\<rfloor> - 52")
  case True
  let ?k = "\<lfloor>log 2 \<bar>x\<bar>\<rfloor>"
  from True have e: "ulp_exponent x = ?k - 52" by (simp add: ulp_exponent_def)
  have "(2 :: real) powi (?k - 52) = 2 powi ?k / 2 ^ 52"
    by (simp add: power_int_diff)
  then have "(2 :: real) powi (ulp_exponent x) / 2 = 2 powi ?k / 2 ^ 53"
    using e by simp
  also have "\<dots> \<le> \<bar>x\<bar> / 2 ^ 53"
    using log2_bracket(1) [OF assms] by (simp add: divide_right_mono)
  finally show ?thesis by simp
next
  case False
  then have e: "ulp_exponent x = - 1074" by (simp add: ulp_exponent_def)
  have "(2 :: real) powi (- 1074) / 2 = 1 / 2 ^ 1075"
    by (simp add: power_int_minus field_simps)
  with e show ?thesis by simp
qed

lemma rounded_error:
  "\<bar>of_int (round_ties_even (x / 2 powi e)) * 2 powi e - x\<bar> \<le> (2 :: real) powi e / 2"
proof -
  have p: "(0 :: real) < 2 powi e" by simp
  let ?m = "of_int (round_ties_even (x / 2 powi e)) :: real"
  have "\<bar>?m - x / 2 powi e\<bar> \<le> 1 / 2" by (rule round_ties_even_near)
  then have "\<bar>?m - x / 2 powi e\<bar> * 2 powi e \<le> 1 / 2 * 2 powi e"
    using p by (intro mult_right_mono) simp_all
  moreover have "\<bar>?m - x / 2 powi e\<bar> * 2 powi e = \<bar>?m * 2 powi e - x\<bar>"
  proof -
    have "\<bar>?m - x / 2 powi e\<bar> * 2 powi e = \<bar>(?m - x / 2 powi e) * 2 powi e\<bar>"
      using p by (simp add: abs_mult)
    also have "(?m - x / 2 powi e) * 2 powi e = ?m * 2 powi e - x"
      using p by (simp add: field_simps)
    finally show ?thesis .
  qed
  ultimately show ?thesis by simp
qed

text \<open>The error of rounding to a double, and no overflow up to \<open>2\<^sup>1\<^sup>0\<^sup>2\<^sup>3\<close>.\<close>

lemma to_double_error:
  assumes "\<bar>x\<bar> \<le> 2 ^ 1023"
  shows "\<exists>y. to_double x = Fin y \<and> \<bar>y - x\<bar> \<le> \<bar>x\<bar> / 2 ^ 53 + 1 / 2 ^ 1075"
proof (cases "x = 0")
  case True
  then show ?thesis by (simp add: to_double_def)
next
  case False
  let ?e = "ulp_exponent x"
  let ?y = "of_int (round_ties_even (x / 2 powi ?e)) * 2 powi ?e :: real"
  have err: "\<bar>?y - x\<bar> \<le> \<bar>x\<bar> / 2 ^ 53 + 1 / 2 ^ 1075"
  proof -
    have "\<bar>?y - x\<bar> \<le> 2 powi ?e / 2" by (rule rounded_error)
    also have "\<dots> \<le> max (\<bar>x\<bar> / 2 ^ 53) (1 / 2 ^ 1075)" by (rule half_ulp_bound [OF False])
    also have "\<dots> \<le> \<bar>x\<bar> / 2 ^ 53 + 1 / 2 ^ 1075" by simp
    finally show ?thesis .
  qed
  have "\<bar>?y\<bar> \<le> \<bar>x\<bar> + \<bar>?y - x\<bar>" by linarith
  also have "\<dots> \<le> 2 ^ 1023 + (2 ^ 1023 / 2 ^ 53 + 1 / 2 ^ 1075)"
    using err assms by (simp add: divide_right_mono add_mono)
  also have "\<dots> < (2 :: real) ^ 1024" by simp
  finally have "\<not> 2 ^ 1024 \<le> \<bar>?y\<bar>" by simp
  then have "to_double x = Fin ?y"
    using False by (simp add: to_double_def Let_def)
  with err show ?thesis by blast
qed

lemma power_int_exp_less:
  assumes "(2 :: real) powi a < 2 powi b"
  shows "a < b"
proof (rule ccontr)
  assume "\<not> a < b"
  then have "b \<le> a" by simp
  then have "(2 :: real) powi b \<le> 2 powi a" by (intro power_int_increasing) simp_all
  with assms show False by simp
qed

lemma to_double_representable:
  assumes "\<bar>m\<bar> < 2 ^ 53" and "- 1074 \<le> e" and "\<bar>of_int m * 2 powi e\<bar> < (2 :: real) ^ 1024"
  shows "to_double (of_int m * 2 powi e) = Fin (of_int m * 2 powi e)"
proof (cases "m = 0")
  case True
  then show ?thesis by (simp add: to_double_def)
next
  case False
  let ?y = "of_int m * 2 powi e :: real"
  let ?k = "\<lfloor>log 2 \<bar>?y\<bar>\<rfloor>"
  let ?e = "ulp_exponent ?y"
  have y0: "?y \<noteq> 0" using False by simp
  have "\<bar>?y\<bar> = \<bar>of_int m\<bar> * 2 powi e" by (simp add: abs_mult)
  also have "\<dots> < 2 ^ 53 * 2 powi e"
  proof -
    have "\<bar>of_int m :: real\<bar> < 2 ^ 53"
      using assms(1) by (metis of_int_abs of_int_less_numeral_power_cancel_iff)
    then show ?thesis by (intro mult_strict_right_mono) simp_all
  qed
  also have "\<dots> = 2 powi (e + 53)" by (simp add: power_int_add)
  finally have "(2 :: real) powi ?k < 2 powi (e + 53)"
    using log2_bracket(1) [OF y0] by linarith
  then have "?k < e + 53" by (rule power_int_exp_less)
  with assms(2) have le: "?e \<le> e" by (simp add: ulp_exponent_def)
  then obtain n :: nat where n: "e = ?e + int n"
    by (metis zle_iff_zadd)
  have split: "(2 :: real) powi e = 2 powi ?e * 2 ^ n"
    by (subst n) (simp add: power_int_add)
  have pos: "(0 :: real) < 2 powi ?e" by simp
  have cancel: "a * q / p = a * c" if "0 < p" and "q = p * c" for a q p c :: real
    using that by simp
  have "?y / 2 powi ?e = of_int m * 2 ^ n"
    by (rule cancel [OF pos split])
  then have sc: "?y / 2 powi ?e = of_int (m * 2 ^ n)" by simp
  have "round_ties_even (?y / 2 powi ?e) = m * 2 ^ n"
    unfolding sc by (rule round_ties_even_of_int)
  moreover have "of_int (m * 2 ^ n) * 2 powi ?e = ?y"
  proof -
    have "(of_int (m * 2 ^ n) :: real) * 2 powi ?e = of_int m * (2 powi ?e * 2 ^ n)" by simp
    also have "\<dots> = ?y" by (simp only: split [symmetric])
    finally show ?thesis .
  qed
  ultimately have "of_int (round_ties_even (?y / 2 powi ?e)) * 2 powi ?e = ?y" by simp
  then show ?thesis
    using y0 assms(3) by (simp add: to_double_def Let_def)
qed

lemma to_double_range:
  assumes "to_double x = Fin y"
  shows "\<exists>m e. y = of_int m * 2 powi e \<and> \<bar>m\<bar> < 2 ^ 53 \<and> - 1074 \<le> e \<and> \<bar>y\<bar> < 2 ^ 1024"
proof (cases "x = 0")
  case True
  with assms have "y = of_int 0 * 2 powi 0" by (simp add: to_double_def)
  moreover have "\<bar>0 :: int\<bar> < 2 ^ 53" "- 1074 \<le> (0 :: int)" by simp_all
  moreover have "\<bar>y\<bar> < 2 ^ 1024" using calculation(1) by simp
  ultimately show ?thesis by blast
next
  case False
  let ?e = "ulp_exponent x"
  let ?m = "round_ties_even (x / 2 powi ?e)"
  from assms False have y: "y = of_int ?m * 2 powi ?e" and fin: "\<bar>y\<bar> < 2 ^ 1024"
    by (auto simp: to_double_def Let_def signed_inf_def split: if_splits)
  have "\<bar>x / 2 powi ?e\<bar> = \<bar>x\<bar> / 2 powi ?e" by simp
  also have "\<dots> < 2 ^ 53"
    using scaled_below [OF False] by (simp add: field_simps)
  finally have z: "\<bar>x / 2 powi ?e\<bar> < 2 ^ 53" .
  have "\<bar>of_int ?m - x / 2 powi ?e\<bar> \<le> 1 / 2" by (rule round_ties_even_near)
  with z have "\<bar>of_int ?m :: real\<bar> < 2 ^ 53 + 1" by linarith
  then have "\<bar>of_int ?m :: real\<bar> < of_int (2 ^ 53 + 1)" by simp
  then have "\<bar>?m\<bar> < 2 ^ 53 + 1" by (metis of_int_abs of_int_less_iff)
  then have m: "\<bar>?m\<bar> \<le> 2 ^ 53" by simp
  show ?thesis
  proof (cases "\<bar>?m\<bar> < 2 ^ 53")
    case True
    with y fin ulp_exponent_ge [of x] show ?thesis by blast
  next
    case False
    with m have "\<bar>?m\<bar> = 2 ^ 53" by simp
    then have c: "?m = 2 * 2 ^ 52 \<or> ?m = - (2 * 2 ^ 52)" by auto
    let ?h = "?m div 2"
    from c have h: "?m = ?h * 2" "\<bar>?h\<bar> < 2 ^ 53" by auto
    have "y = of_int (?h * 2) * 2 powi ?e" using y h(1) by simp
    also have "\<dots> = of_int ?h * 2 powi (?e + 1)"
      by (simp add: power_int_add)
    finally have "y = of_int ?h * 2 powi (?e + 1)" .
    moreover have "- 1074 \<le> ?e + 1" using ulp_exponent_ge [of x] by simp
    ultimately show ?thesis using h(2) fin by blast
  qed
qed

lemma to_double_idem:
  assumes "to_double x = Fin y"
  shows "to_double y = Fin y"
proof -
  from to_double_range [OF assms] obtain m e
    where "y = of_int m * 2 powi e" "\<bar>m\<bar> < 2 ^ 53" "- 1074 \<le> e" "\<bar>y\<bar> < 2 ^ 1024"
    by blast
  then show ?thesis using to_double_representable [of m e] by simp
qed

lemma to_double_minus: "to_double (- x) = js_neg (to_double x)"
proof (cases "x = 0")
  case True
  then show ?thesis by (simp add: to_double_def)
next
  case False
  have e: "ulp_exponent (- x) = ulp_exponent x" by (simp add: ulp_exponent_def)
  have "round_ties_even (- x / 2 powi ulp_exponent x) = - round_ties_even (x / 2 powi ulp_exponent x)"
    using round_ties_even_minus [of "x / 2 powi ulp_exponent x"] by simp
  then show ?thesis
    using False by (simp add: to_double_def Let_def e signed_inf_def)
qed

lemma to_double_exact:
  assumes "2 powi k \<le> \<bar>x\<bar>" and "\<bar>x\<bar> < 2 powi (k + 1)" and "- 1022 \<le> k"
    and "\<bar>x / 2 powi (k - 52) - of_int m\<bar> < 1 / 2"
    and "\<bar>of_int m * 2 powi (k - 52)\<bar> < (2 :: real) ^ 1024"
  shows "to_double x = Fin (of_int m * 2 powi (k - 52))"
proof -
  have "(0 :: real) < 2 powi k" by simp
  with assms(1) have "0 < \<bar>x\<bar>" by linarith
  then have x0: "x \<noteq> 0" by simp
  have "\<lfloor>log 2 \<bar>x\<bar>\<rfloor> = k" by (rule log2_floorI [OF assms(1,2)])
  with assms(3) have e: "ulp_exponent x = k - 52" by (simp add: ulp_exponent_def)
  have "round_ties_even (x / 2 powi (k - 52)) = m"
    by (rule round_ties_even_unique [OF assms(4)])
  with e x0 assms(5) show ?thesis by (simp add: to_double_def Let_def)
qed

lemma to_double_zero: "to_double 0 = Fin 0"
  by (simp add: to_double_def)

text \<open>From \<open>2\<^sup>1\<^sup>0\<^sup>2\<^sup>5\<close> on, every real is rounded to an infinity.\<close>

lemma to_double_overflow:
  assumes "2 ^ 1025 \<le> \<bar>x\<bar>"
  shows "to_double x = signed_inf x"
proof -
  have x0: "x \<noteq> 0" using assms by auto
  let ?e = "ulp_exponent x"
  let ?y = "of_int (round_ties_even (x / 2 powi ?e)) * 2 powi ?e :: real"
  have "\<bar>?y - x\<bar> \<le> 2 powi ?e / 2" by (rule rounded_error)
  also have "\<dots> \<le> max (\<bar>x\<bar> / 2 ^ 53) (1 / 2 ^ 1075)" by (rule half_ulp_bound [OF x0])
  also have "\<dots> \<le> \<bar>x\<bar> / 2"
  proof -
    have "\<bar>x\<bar> / 2 ^ 53 \<le> \<bar>x\<bar> / 2" by (intro divide_left_mono) simp_all
    moreover have "(1 :: real) / 2 ^ 1075 \<le> 2 ^ 1025 / 2" by simp
    moreover have "(2 :: real) ^ 1025 / 2 \<le> \<bar>x\<bar> / 2" using assms by simp
    ultimately show ?thesis by simp
  qed
  finally have "\<bar>x\<bar> / 2 \<le> \<bar>?y\<bar>" by linarith
  moreover have "(2 :: real) ^ 1024 \<le> \<bar>x\<bar> / 2" using assms by simp
  ultimately have "2 ^ 1024 \<le> \<bar>?y\<bar>" by linarith
  then show ?thesis using x0 by (simp add: to_double_def Let_def)
qed

section \<open>Enclosures of computed numbers\<close>

lemma enclosedE:
  assumes "enclosed v lo hi"
  obtains y where "v = Fin y" "lo \<le> y" "y \<le> hi"
  using assms by (cases v) (auto simp: enclosed_def)

lemma enclosed_Fin: "enclosed (Fin y) lo hi \<longleftrightarrow> lo \<le> y \<and> y \<le> hi"
  by (simp add: enclosed_def)

lemma enclosed_weaken:
  assumes "enclosed v lo hi" and "lo' \<le> lo" and "hi \<le> hi'"
  shows "enclosed v lo' hi'"
  using assms by (cases v) (auto simp: enclosed_def)

lemma unit_roundoff:
  fixes x B :: real
  assumes "\<bar>x\<bar> \<le> B" and "1 / 10 ^ 30 \<le> B"
  shows "\<bar>x\<bar> / 2 ^ 53 + 1 / 2 ^ 1075 \<le> B / 10 ^ 15"
proof -
  have "\<bar>x\<bar> / 2 ^ 53 \<le> B / 2 ^ 53" using assms(1) by (simp add: divide_right_mono)
  moreover have "(1 :: real) / 2 ^ 1075 \<le> (1 / 10 ^ 30) / 10 ^ 16" by simp
  moreover have "(1 / 10 ^ 30) / 10 ^ 16 \<le> B / 10 ^ 16"
    using assms(2) by (intro divide_right_mono) simp_all
  moreover have "B / 2 ^ 53 + B / 10 ^ 16 \<le> B / 10 ^ 15"
  proof -
    have "0 \<le> B" using assms(1) by linarith
    have "B / 2 ^ 53 + B / 10 ^ 16 = B * (1 / 2 ^ 53 + 1 / 10 ^ 16)" by (simp add: algebra_simps)
    also have "\<dots> \<le> B * (1 / 10 ^ 15)"
      using \<open>0 \<le> B\<close> by (intro mult_left_mono) simp_all
    finally show ?thesis by simp
  qed
  ultimately show ?thesis by linarith
qed

lemma enclosed_to_double:
  assumes "lo \<le> x" and "x \<le> hi" and "- B \<le> lo" and "hi \<le> B"
    and "1 / 10 ^ 30 \<le> B" and "B \<le> 10 ^ 30"
  shows "enclosed (to_double x) (lo - B / 10 ^ 15) (hi + B / 10 ^ 15)"
proof -
  have b: "\<bar>x\<bar> \<le> B" using assms(1-4) by linarith
  have "(10 :: real) ^ 30 \<le> 2 ^ 1023" by simp
  with b assms(6) have "\<bar>x\<bar> \<le> 2 ^ 1023" by linarith
  from to_double_error [OF this] obtain y
    where y: "to_double x = Fin y" "\<bar>y - x\<bar> \<le> \<bar>x\<bar> / 2 ^ 53 + 1 / 2 ^ 1075" by blast
  from y(2) unit_roundoff [OF b assms(5)] have "\<bar>y - x\<bar> \<le> B / 10 ^ 15" by linarith
  with assms(1,2) have "lo - B / 10 ^ 15 \<le> y" and "y \<le> hi + B / 10 ^ 15" by linarith+
  with y(1) show ?thesis by (simp only: enclosed_def jsnum.case simp_thms)
qed

lemma enclosed_add:
  assumes "enclosed a l1 h1" and "enclosed b l2 h2"
    and "- B \<le> l1 + l2" and "h1 + h2 \<le> B" and "1 / 10 ^ 30 \<le> B" and "B \<le> 10 ^ 30"
  shows "enclosed (js_add a b) (l1 + l2 - B / 10 ^ 15) (h1 + h2 + B / 10 ^ 15)"
proof -
  from assms(1) obtain x where x: "a = Fin x" "l1 \<le> x" "x \<le> h1" by (rule enclosedE)
  from assms(2) obtain y where y: "b = Fin y" "l2 \<le> y" "y \<le> h2" by (rule enclosedE)
  have "enclosed (to_double (x + y)) (l1 + l2 - B / 10 ^ 15) (h1 + h2 + B / 10 ^ 15)"
    using x y assms(3-6) by (intro enclosed_to_double) simp_all
  with x(1) y(1) show ?thesis by simp
qed

lemma enclosed_sub:
  assumes "enclosed a l1 h1" and "enclosed b l2 h2"
    and "- B \<le> l1 - h2" and "h1 - l2 \<le> B" and "1 / 10 ^ 30 \<le> B" and "B \<le> 10 ^ 30"
  shows "enclosed (js_sub a b) (l1 - h2 - B / 10 ^ 15) (h1 - l2 + B / 10 ^ 15)"
proof -
  from assms(1) obtain x where x: "a = Fin x" "l1 \<le> x" "x \<le> h1" by (rule enclosedE)
  from assms(2) obtain y where y: "b = Fin y" "l2 \<le> y" "y \<le> h2" by (rule enclosedE)
  have "enclosed (to_double (x + - y)) (l1 - h2 - B / 10 ^ 15) (h1 - l2 + B / 10 ^ 15)"
    using x y assms(3-6) by (intro enclosed_to_double) simp_all
  with x(1) y(1) show ?thesis by (simp add: js_sub_def)
qed

lemma enclosed_mul_const:
  assumes "enclosed a l h" and "0 \<le> c"
    and "- B \<le> l * c" and "h * c \<le> B" and "1 / 10 ^ 30 \<le> B" and "B \<le> 10 ^ 30"
  shows "enclosed (js_mul a (Fin c)) (l * c - B / 10 ^ 15) (h * c + B / 10 ^ 15)"
proof -
  from assms(1) obtain x where x: "a = Fin x" "l \<le> x" "x \<le> h" by (rule enclosedE)
  have "l * c \<le> x * c" "x * c \<le> h * c"
    using x(2,3) assms(2) by (simp_all add: mult_right_mono)
  then have "enclosed (to_double (x * c)) (l * c - B / 10 ^ 15) (h * c + B / 10 ^ 15)"
    using assms(3-6) by (intro enclosed_to_double) simp_all
  with x(1) show ?thesis by simp
qed

lemma enclosed_div_const:
  assumes "enclosed a l h" and "0 < c"
    and "- B \<le> l / c" and "h / c \<le> B" and "1 / 10 ^ 30 \<le> B" and "B \<le> 10 ^ 30"
  shows "enclosed (js_div a (Fin c)) (l / c - B / 10 ^ 15) (h / c + B / 10 ^ 15)"
proof -
  from assms(1) obtain x where x: "a = Fin x" "l \<le> x" "x \<le> h" by (rule enclosedE)
  have "l / c \<le> x / c" "x / c \<le> h / c"
    using x(2,3) assms(2) by (simp_all add: divide_right_mono)
  then have "enclosed (to_double (x / c)) (l / c - B / 10 ^ 15) (h / c + B / 10 ^ 15)"
    using assms(3-6) by (intro enclosed_to_double) simp_all
  with x(1) assms(2) show ?thesis by simp
qed

lemma enclosed_mul_pos:
  assumes "enclosed a l1 h1" and "enclosed b l2 h2" and "0 \<le> l1" and "0 \<le> l2"
    and "h1 * h2 \<le> B" and "1 / 10 ^ 30 \<le> B" and "B \<le> 10 ^ 30"
  shows "enclosed (js_mul a b) (l1 * l2 - B / 10 ^ 15) (h1 * h2 + B / 10 ^ 15)"
proof -
  from assms(1) obtain x where x: "a = Fin x" "l1 \<le> x" "x \<le> h1" by (rule enclosedE)
  from assms(2) obtain y where y: "b = Fin y" "l2 \<le> y" "y \<le> h2" by (rule enclosedE)
  have lo: "l1 * l2 \<le> x * y"
    using x(2) y(2) assms(3,4) by (intro mult_mono) simp_all
  have hi: "x * y \<le> h1 * h2"
    using x(2,3) y(2,3) assms(3,4) by (intro mult_mono) simp_all
  have "0 \<le> l1 * l2" using assms(3,4) by simp
  then have "- B \<le> l1 * l2" using lo hi assms(5) by linarith
  then have "enclosed (to_double (x * y)) (l1 * l2 - B / 10 ^ 15) (h1 * h2 + B / 10 ^ 15)"
    using lo hi assms(5-7) by (intro enclosed_to_double) simp_all
  with x(1) y(1) show ?thesis by simp
qed

lemma enclosed_div_pos:
  assumes "enclosed a l1 h1" and "enclosed b l2 h2" and "0 \<le> l1" and "0 < l2"
    and "h1 / l2 \<le> B" and "1 / 10 ^ 30 \<le> B" and "B \<le> 10 ^ 30"
  shows "enclosed (js_div a b) (l1 / h2 - B / 10 ^ 15) (h1 / l2 + B / 10 ^ 15)"
proof -
  from assms(1) obtain x where x: "a = Fin x" "l1 \<le> x" "x \<le> h1" by (rule enclosedE)
  from assms(2) obtain y where y: "b = Fin y" "l2 \<le> y" "y \<le> h2" by (rule enclosedE)
  have y0: "0 < y" using y(2) assms(4) by linarith
  have lo: "l1 / h2 \<le> x / y"
    using x(2) y(3) assms(3) y0 by (intro frac_le) simp_all
  have hi: "x / y \<le> h1 / l2"
    using x(2,3) y(2) assms(3,4) by (intro frac_le) simp_all
  have "0 \<le> l1 / h2" using assms(3,4) y(2,3) by simp
  then have "- B \<le> l1 / h2" using lo hi assms(5) by linarith
  then have "enclosed (to_double (x / y)) (l1 / h2 - B / 10 ^ 15) (h1 / l2 + B / 10 ^ 15)"
    using lo hi assms(5-7) by (intro enclosed_to_double) simp_all
  with x(1) y(1) y0 show ?thesis by simp
qed

text \<open>Rounding to cents a value known to lie enclosed half a cent of a whole number of cents.\<close>

lemma round2_enclosed:
  assumes "enclosed v l h"
    and "of_int n - 1 / 2 \<le> l * 100 - B / 10 ^ 15" and "h * 100 + B / 10 ^ 15 < of_int n + 1 / 2"
    and "- B \<le> l * 100" and "h * 100 \<le> B" and "1 / 10 ^ 30 \<le> B" and "B \<le> 10 ^ 30"
  shows "round2 v = to_double (of_int n / 100)"
proof -
  have "enclosed (js_mul v (Fin 100)) (l * 100 - B / 10 ^ 15) (h * 100 + B / 10 ^ 15)"
    using assms(1,4-7) by (intro enclosed_mul_const) simp_all
  then obtain x where x: "js_mul v (Fin 100) = Fin x"
      "l * 100 - B / 10 ^ 15 \<le> x" "x \<le> h * 100 + B / 10 ^ 15"
    by (rule enclosedE)
  have "\<lfloor>x + 1 / 2\<rfloor> = n"
    using x(2,3) assms(2,3) by (simp add: floor_eq_iff; linarith)
  then show ?thesis using x(1) by (simp add: round2_def)
qed

lemma round_2_eq_round2: "round_2 = round2"
  by (rule ext) (simp add: round_2_def round2_def)

lemma to_double_not_NaN: "to_double x \<noteq> NaN"
  by (simp add: to_double_def Let_def signed_inf_def)

lemma enclosed_literal:
  assumes "- B \<le> x" and "x \<le> B" and "1 / 10 ^ 30 \<le> B" and "B \<le> 10 ^ 30"
  shows "enclosed (to_double x) (x - B / 10 ^ 15) (x + B / 10 ^ 15)"
  using assms by (intro enclosed_to_double) simp_all

lemma enclosed_positive:
  assumes "enclosed v l h" and "0 < l"
  shows "\<not> js_le v (Fin 0)" and "\<not> js_strict_eq v (Fin 0)"
  using assms by (auto elim!: enclosedE simp: js_strict_eq_def)

lemma enclosed_neg:
  assumes "enclosed v l h"
  shows "enclosed (js_neg v) (- h) (- l)"
  using assms by (auto elim!: enclosedE simp: enclosed_Fin)

section \<open>Properties of rounding to cents\<close>

lemma floor_half_tie:
  fixes x :: real
  assumes "frac x = 1 / 2"
  shows "\<lfloor>- x + 1 / 2\<rfloor> = - \<lfloor>x\<rfloor>" and "\<lfloor>x + 1 / 2\<rfloor> = \<lfloor>x\<rfloor> + 1"
proof -
  have x: "x = of_int \<lfloor>x\<rfloor> + 1 / 2" using assms by (simp add: frac_def)
  have "- x + 1 / 2 = of_int (- \<lfloor>x\<rfloor>)" using x by simp
  then show "\<lfloor>- x + 1 / 2\<rfloor> = - \<lfloor>x\<rfloor>" by (metis floor_of_int)
  have "x + 1 / 2 = of_int (\<lfloor>x\<rfloor> + 1)" using x by simp
  then show "\<lfloor>x + 1 / 2\<rfloor> = \<lfloor>x\<rfloor> + 1" by (metis floor_of_int)
qed

lemma floor_neg_no_tie:
  fixes x :: real
  assumes "frac x \<noteq> 1 / 2"
  shows "\<lfloor>- x + 1 / 2\<rfloor> = - \<lfloor>x + 1 / 2\<rfloor>"
proof -
  let ?k = "\<lfloor>x + 1 / 2\<rfloor>"
  have lo: "of_int ?k \<le> x + 1 / 2" and hi: "x + 1 / 2 < of_int ?k + 1"
    by linarith+
  have ne: "x + 1 / 2 \<noteq> of_int ?k"
  proof
    assume e: "x + 1 / 2 = of_int ?k"
    then have "x = of_int (?k - 1) + 1 / 2" by simp
    then have "\<lfloor>x\<rfloor> = ?k - 1" by (simp add: floor_eq_iff)
    with e have "frac x = 1 / 2" by (simp add: frac_def)
    with assms show False by simp
  qed
  have "- of_int ?k \<le> - x + 1 / 2" using hi by linarith
  moreover have "- x + 1 / 2 < - of_int ?k + 1" using lo ne by linarith
  ultimately have "\<lfloor>- x + 1 / 2\<rfloor> = - ?k"
    unfolding floor_eq_iff of_int_minus by blast
  then show ?thesis .
qed

lemma Math_round_agrees_half_away:
  assumes "0 \<le> x \<or> frac x \<noteq> 1 / 2"
  shows "Math_round (Fin x) = Fin (round_half_away_from_zero x)"
proof (cases "0 \<le> x")
  case True
  then show ?thesis
    by (cases "x = 0") (simp_all add: round_half_away_from_zero_def)
next
  case False
  then have neg: "x < 0" by simp
  with assms have nt: "frac x \<noteq> 1 / 2" by simp
  have "\<lfloor>- x + 1 / 2\<rfloor> = - \<lfloor>x + 1 / 2\<rfloor>"
    by (rule floor_neg_no_tie [OF nt])
  with neg show ?thesis
    by (simp add: round_half_away_from_zero_def)
qed

lemma Math_round_negative_tie:
  assumes "x < 0" and "frac x = 1 / 2"
  shows "Math_round (Fin x) = Fin (round_half_away_from_zero x + 1)"
proof -
  have "x = of_int \<lfloor>x\<rfloor> + 1 / 2"
    using assms(2) by (simp add: frac_def)
  then have e: "of_int \<lfloor>x\<rfloor> = x - 1 / 2" by simp
  have a: "\<lfloor>- x + 1 / 2\<rfloor> = - \<lfloor>x\<rfloor>" by (rule floor_half_tie(1) [OF assms(2)])
  have b: "\<lfloor>x + 1 / 2\<rfloor> = \<lfloor>x\<rfloor> + 1" by (rule floor_half_tie(2) [OF assms(2)])
  from assms(1) a b show ?thesis
    by (simp add: round_half_away_from_zero_def)
qed

lemma to_double_dyadic:
  assumes "\<bar>m\<bar> < 2 ^ 53" and "n \<le> 1074"
  shows "to_double (of_int m / 2 ^ n) = Fin (of_int m / 2 ^ n)"
proof -
  have p: "(2 :: real) powi (- int n) = 1 / 2 ^ n"
    by (simp add: power_int_minus field_simps)
  have "\<bar>of_int m / 2 ^ n :: real\<bar> \<le> \<bar>of_int m\<bar>"
    by (simp add: field_simps mult_le_cancel_left1 abs_mult)
  also have "\<dots> < 2 ^ 53"
    using assms(1) by (metis of_int_abs of_int_less_numeral_power_cancel_iff)
  also have "\<dots> < (2 :: real) ^ 1024" by simp
  finally have "\<bar>of_int m * 2 powi (- int n)\<bar> < (2 :: real) ^ 1024" by (simp add: p)
  then have "to_double (of_int m * 2 powi (- int n)) = Fin (of_int m * 2 powi (- int n))"
    using assms by (intro to_double_representable) simp_all
  then show ?thesis by (simp add: p)
qed

lemma to_double_int:
  assumes "\<bar>m\<bar> < 2 ^ 53"
  shows "to_double (of_int m) = Fin (of_int m)"
  using to_double_dyadic [OF assms, of 0] by simp

lemma literal_minus_half_cent:
  "to_double (- 0.005) = Fin (- (5764607523034235 / 2 ^ 60))"
proof -
  have "to_double (- 0.005) = Fin (of_int (- 5764607523034235) * 2 powi (- 8 - 52))"
    by (rule to_double_exact) (simp_all add: power_int_minus)
  moreover have "(of_int (- 5764607523034235) * 2 powi (- 8 - 52) :: real)
      = - (5764607523034235 / 2 ^ 60)"
    by (simp add: power_int_minus)
  ultimately show ?thesis by (simp only:)
qed

lemma minus_half_cent_times_100:
  "js_mul (to_double (- 0.005)) (Fin 100) = Fin (- (1 / 2))"
proof -
  have "to_double (- (5764607523034235 / 2 ^ 60) * 100)
          = Fin (of_int (- 4503599627370496) * 2 powi (- 1 - 52))"
    by (rule to_double_exact) (simp_all add: power_int_minus)
  moreover have "(of_int (- 4503599627370496) * 2 powi (- 1 - 52) :: real) = - (1 / 2)"
    by (simp add: power_int_minus)
  ultimately have "to_double (- (5764607523034235 / 2 ^ 60) * 100) = Fin (- (1 / 2))"
    by (simp only:)
  then show ?thesis by (simp only: literal_minus_half_cent js_mul.simps)
qed

text \<open>
  Claim C3, as the code has it. \<open>round2\<close> (and \<open>round\<close> of the second variant, which is
  the same function) takes the double product \<open>v * 100\<close>, rounds it to the nearest integer
  with a half going to the upper integer, and divides by 100. When the product is \<open>x\<close>,
  the integer is \<open>x\<close> rounded half away from zero, unless \<open>x\<close> is negative and exactly
  half-way between two integers: then it is the integer nearer to zero, one above. When
  the product overflows, the result is that infinity.
\<close>

theorem round2_rounds_half_up:
  "round_2 = round2
   \<and> (js_mul (Fin v) (Fin 100) = Fin x \<longrightarrow>
        (0 \<le> x \<or> frac x \<noteq> 1 / 2 \<longrightarrow>
           round2 (Fin v) = js_div (Fin (round_half_away_from_zero x)) (Fin 100))
      \<and> (x < 0 \<and> frac x = 1 / 2 \<longrightarrow>
           round2 (Fin v) = js_div (Fin (round_half_away_from_zero x + 1)) (Fin 100)))
   \<and> (js_mul (Fin v) (Fin 100) = PosInf \<longrightarrow> round2 (Fin v) = PosInf)
   \<and> (js_mul (Fin v) (Fin 100) = NegInf \<longrightarrow> round2 (Fin v) = NegInf)"
proof -
  have "round2 (Fin v) = js_div (Fin (round_half_away_from_zero x)) (Fin 100)"
    if "js_mul (Fin v) (Fin 100) = Fin x" and "0 \<le> x \<or> frac x \<noteq> 1 / 2"
    using that Math_round_agrees_half_away [of x] by (simp add: round2_def)
  moreover have "round2 (Fin v) = js_div (Fin (round_half_away_from_zero x + 1)) (Fin 100)"
    if "js_mul (Fin v) (Fin 100) = Fin x" and "x < 0" and "frac x = 1 / 2"
    using that Math_round_negative_tie [of x] by (simp add: round2_def)
  moreover have "round2 (Fin v) = PosInf" if "js_mul (Fin v) (Fin 100) = PosInf"
    using that by (simp add: round2_def signed_inf_def)
  moreover have "round2 (Fin v) = NegInf" if "js_mul (Fin v) (Fin 100) = NegInf"
    using that by (simp add: round2_def signed_inf_def)
  ultimately show ?thesis using round_2_eq_round2 by blast
qed

text \<open>
  The theorem at \<open>2.5\<close>, whose product is \<open>250\<close>, at \<open>-0.125\<close>, whose product \<open>-12.5\<close> is a
  tie below zero and is rounded to \<open>-12\<close>, and at \<open>10\<^sup>3\<^sup>0\<^sup>8\<close> and its negative, whose
  products overflow.
\<close>

theorem round2_rounds_half_up_witness:
  "js_mul (Fin 2.5) (Fin 100) = Fin 250
   \<and> (0 \<le> (250 :: real) \<or> frac (250 :: real) \<noteq> 1 / 2)
   \<and> round2 (Fin 2.5) = js_div (Fin (round_half_away_from_zero 250)) (Fin 100)
   \<and> js_mul (Fin (- 0.125)) (Fin 100) = Fin (- 12.5)
   \<and> ((- 12.5 :: real) < 0 \<and> frac (- 12.5 :: real) = 1 / 2)
   \<and> round2 (Fin (- 0.125)) = js_div (Fin (round_half_away_from_zero (- 12.5) + 1)) (Fin 100)
   \<and> js_mul (Fin (10 ^ 308)) (Fin 100) = PosInf
   \<and> round2 (Fin (10 ^ 308)) = PosInf
   \<and> js_mul (Fin (- (10 ^ 308))) (Fin 100) = NegInf
   \<and> round2 (Fin (- (10 ^ 308))) = NegInf"
proof -
  have a: "js_mul (Fin 2.5) (Fin 100) = Fin 250"
    using to_double_int [of 250] by simp
  have p: "0 \<le> (250 :: real) \<or> frac (250 :: real) \<noteq> 1 / 2" by simp
  have b: "js_mul (Fin (- 0.125)) (Fin 100) = Fin (- 12.5)"
    using to_double_dyadic [of "- 25" 1] by simp
  have n: "(- 12.5 :: real) < 0 \<and> frac (- 12.5 :: real) = 1 / 2"
    by (simp add: frac_def)
  have "to_double (10 ^ 308 * 100) = signed_inf (10 ^ 308 * 100)"
    by (rule to_double_overflow) simp
  then have u: "js_mul (Fin (10 ^ 308)) (Fin 100) = PosInf"
    by (simp add: signed_inf_def)
  have "to_double (- (10 ^ 308) * 100) = signed_inf (- (10 ^ 308) * 100)"
    by (rule to_double_overflow) simp
  then have l: "js_mul (Fin (- (10 ^ 308))) (Fin 100) = NegInf"
    by (simp add: signed_inf_def)
  from a p round2_rounds_half_up [of "2.5" 250]
  have c: "round2 (Fin 2.5) = js_div (Fin (round_half_away_from_zero 250)) (Fin 100)"
    by blast
  from b n round2_rounds_half_up [of "- 0.125" "- 12.5"]
  have d: "round2 (Fin (- 0.125)) = js_div (Fin (round_half_away_from_zero (- 12.5) + 1)) (Fin 100)"
    by blast
  from u round2_rounds_half_up [of "10 ^ 308"]
  have e: "round2 (Fin (10 ^ 308)) = PosInf" by blast
  from l round2_rounds_half_up [of "- (10 ^ 308)"]
  have f: "round2 (Fin (- (10 ^ 308))) = NegInf" by blast
  show ?thesis using a p b n c d u e l f by blast
qed

text \<open>
  Claim C3 as it is written fails at \<open>v = -0.005\<close>: the product is \<open>-0.5\<close>, which is rounded
  to \<open>0\<close>, so half a cent below zero becomes \<open>0\<close> and not \<open>-0.01\<close>.
\<close>

theorem round2_negative_half_cent:
  "js_mul (to_double (- 0.005)) (Fin 100) = Fin (- (1 / 2))
   \<and> round2 (to_double (- 0.005)) = Fin 0
   \<and> js_div (Fin (round_half_away_from_zero (- (1 / 2)))) (Fin 100) = to_double (- 0.01)
   \<and> round2 (to_double (- 0.005)) \<noteq> to_double (- 0.01)"
proof -
  have "round2 (to_double (- 0.005)) = js_div (Math_round (Fin (- (1 / 2)))) (Fin 100)"
    by (simp only: round2_def minus_half_cent_times_100)
  also have "\<dots> = Fin 0" by (simp add: to_double_zero)
  finally have a: "round2 (to_double (- 0.005)) = Fin 0" .
  have b: "js_div (Fin (round_half_away_from_zero (- (1 / 2)))) (Fin 100) = to_double (- 0.01)"
    by (simp add: round_half_away_from_zero_def)
  have "enclosed (to_double (- 0.01)) (- 0.011) (- 0.009)"
    by (rule enclosed_weaken [OF enclosed_literal [where B = 1]]) simp_all
  then have "to_double (- 0.01) \<noteq> Fin 0"
    by (auto elim!: enclosedE)
  with a have c: "round2 (to_double (- 0.005)) \<noteq> to_double (- 0.01)" by simp
  show ?thesis using minus_half_cent_times_100 a b c by blast
qed

section \<open>Properties of the calculator\<close>

lemma applyQuote_core:
  "applyQuote form =
     quote_core (safeNum (sellingPrice form)) (safeNum (taxRate form)) (safeNum (rate form))
       (safeNum (termMonths form)) (safeNum (outOfPocket form))"
  by (simp only: applyQuote_def quote_core_def Let_def)

lemma applyQuote_2_core:
  "applyQuote_2 form =
     quote_core (num_2 (sellingPrice form)) (num_2 (taxRate form)) (num_2 (rate form))
       (num_2 (termMonths form)) (num_2 (outOfPocket form))"
  by (simp only: applyQuote_2_def quote_core_def round_2_eq_round2 Let_def)

lemma enclosed_taxes: "enclosed (to_double 2130.45) (2130.45 - 1 / 10 ^ 11) (2130.45 + 1 / 10 ^ 11)"
  by (rule enclosed_weaken [OF enclosed_literal [where B = "10 ^ 4"]]) simp_all

lemma default_base:
  "round2 (js_sub (js_add (Fin 28406) (to_double 2130.45)) (Fin 2000)) = to_double 28536.45"
proof -
  have a: "enclosed (js_add (Fin 28406) (to_double 2130.45))
             (30536.45 - 1 / 10 ^ 9) (30536.45 + 1 / 10 ^ 9)"
    by (rule enclosed_weaken [OF enclosed_add [OF _ enclosed_taxes,
            where B = "10 ^ 5" and ?l1.0 = 28406 and ?h1.0 = 28406]])
      (simp_all add: enclosed_Fin)
  have b: "enclosed (js_sub (js_add (Fin 28406) (to_double 2130.45)) (Fin 2000))
             (28536.45 - 1 / 10 ^ 8) (28536.45 + 1 / 10 ^ 8)"
    by (rule enclosed_weaken [OF enclosed_sub [OF a,
            where B = "10 ^ 5" and ?l2.0 = 2000 and ?h2.0 = 2000]])
      (simp_all add: enclosed_Fin)
  have "round2 (js_sub (js_add (Fin 28406) (to_double 2130.45)) (Fin 2000))
          = to_double (of_int 2853645 / 100)"
    by (rule round2_enclosed [OF b, where B = "10 ^ 7"]) simp_all
  then show ?thesis by simp
qed

lemma enclosed_base:
  "enclosed (to_double 28536.45) (28536.45 - 1 / 10 ^ 10) (28536.45 + 1 / 10 ^ 10)"
  by (rule enclosed_weaken [OF enclosed_literal [where B = "10 ^ 5"]]) simp_all

lemma enclosed_monthly_rate:
  "enclosed (js_div (js_div (to_double 5.7) (Fin 100)) (Fin 12))
     (0.00475 - 1 / 10 ^ 16) (0.00475 + 1 / 10 ^ 16)"
proof -
  have a: "enclosed (to_double 5.7) (5.7 - 1 / 10 ^ 14) (5.7 + 1 / 10 ^ 14)"
    by (rule enclosed_weaken [OF enclosed_literal [where B = 10]]) simp_all
  have b: "enclosed (js_div (to_double 5.7) (Fin 100)) (0.057 - 1 / 10 ^ 15) (0.057 + 1 / 10 ^ 15)"
    by (rule enclosed_weaken [OF enclosed_div_const [OF a, where B = "1 / 10"]]) simp_all
  show ?thesis
    by (rule enclosed_weaken [OF enclosed_div_const [OF b, where B = "1 / 100"]]) simp_all
qed

lemma powr_minus_36:
  fixes q :: real
  assumes "0 < q"
  shows "q powr (- 36) = 1 / q ^ 36"
proof -
  have "q powr (- 36) = 1 / (q powr 36)" by (simp only: powr_minus_divide)
  also have "q powr 36 = q ^ 36" using assms by (intro powr_numeral) simp
  finally show ?thesis .
qed

text \<open>The payment of the default scenario, for any rate, base and growth factor close
  enough to the exact ones.\<close>

lemma default_payment_quotient:
  assumes r: "enclosed r (0.00475 - 1 / 10 ^ 16) (0.00475 + 1 / 10 ^ 16)"
    and b: "enclosed b (28536.45 - 1 / 10 ^ 10) (28536.45 + 1 / 10 ^ 10)"
    and q: "enclosed q 1.004749999999 1.004750000001"
  shows "enclosed (js_div (js_mul b r) (js_sub (Fin 1) (Math_pow q (Fin (- 36)))))
           864.2604 864.2605"
proof -
  from q obtain q0 where q0: "q = Fin q0" "1.004749999999 \<le> q0" "q0 \<le> 1.004750000001"
    by (rule enclosedE)
  have pos: "0 < q0" using q0(2) by simp
  have lo: "1.004749999999 ^ 36 \<le> q0 ^ 36"
    using q0(2) by (intro power_mono) simp_all
  have hi: "q0 ^ 36 \<le> 1.004750000001 ^ 36"
    using q0(3) pos by (intro power_mono) simp_all
  have "0.84316285335 \<le> 1 / (1.004750000001 :: real) ^ 36"
    by (simp add: power_divide)
  also have "\<dots> \<le> 1 / q0 ^ 36"
    using hi pos by (intro frac_le) simp_all
  finally have f_lo: "0.84316285335 \<le> q0 powr (- 36)"
    by (simp only: powr_minus_36 [OF pos])
  have "1 / q0 ^ 36 \<le> 1 / (1.004749999999 :: real) ^ 36"
    using lo by (intro frac_le) simp_all
  also have "\<dots> \<le> 0.84316285342"
    by (simp add: power_divide)
  finally have f_hi: "q0 powr (- 36) \<le> 0.84316285342"
    by (simp only: powr_minus_36 [OF pos])
  have "Math_pow (Fin q0) (Fin (- 36)) = to_double (q0 powr (- 36))"
    using pos by (simp add: Math_pow_def del: powr_minus powr_numeral)
  moreover have "enclosed (to_double (q0 powr (- 36))) 0.8431628533 0.8431628535"
    by (rule enclosed_weaken [OF enclosed_to_double [OF f_lo f_hi, where B = 1]]) simp_all
  ultimately have f: "enclosed (Math_pow q (Fin (- 36))) 0.8431628533 0.8431628535"
    using q0(1) by simp
  have d: "enclosed (js_sub (Fin 1) (Math_pow q (Fin (- 36)))) 0.1568371464 0.1568371468"
    by (rule enclosed_weaken [OF enclosed_sub [OF _ f, where B = 1 and ?l1.0 = 1 and ?h1.0 = 1]])
      (simp_all add: enclosed_Fin)
  have n: "enclosed (js_mul b r) 135.5481374 135.5481376"
    by (rule enclosed_weaken [OF enclosed_mul_pos [OF b r, where B = "10 ^ 3"]]) simp_all
  show ?thesis
    by (rule enclosed_weaken [OF enclosed_div_pos [OF n d, where B = "10 ^ 3"]]) simp_all
qed

lemma default_payment_rounds:
  assumes "enclosed p 864.2604 864.2605"
  shows "round2 p = to_double 864.26"
proof -
  have "round2 p = to_double (of_int 86426 / 100)"
    by (rule round2_enclosed [OF assms, where B = "10 ^ 5"]) simp_all
  then show ?thesis by simp
qed

lemma enclosed_growth:
  assumes r: "enclosed r (0.00475 - 1 / 10 ^ 16) (0.00475 + 1 / 10 ^ 16)"
  shows "enclosed (js_add (Fin 1) r) 1.004749999999 1.004750000001"
  by (rule enclosed_weaken [OF enclosed_add [OF _ r, where B = 2 and ?l1.0 = 1 and ?h1.0 = 1]])
    (simp_all add: enclosed_Fin)

lemma enclosed_payment:
  "enclosed (to_double 864.26) (864.26 - 1 / 10 ^ 12) (864.26 + 1 / 10 ^ 12)"
  by (rule enclosed_weaken [OF enclosed_literal [where B = "10 ^ 3"]]) simp_all

lemma default_total: "round2 (js_mul (to_double 864.26) (Fin 36)) = to_double 31113.36"
proof -
  have a: "enclosed (js_mul (to_double 864.26) (Fin 36)) (31113.36 - 1 / 10 ^ 9) (31113.36 + 1 / 10 ^ 9)"
    by (rule enclosed_weaken [OF enclosed_mul_const [OF enclosed_payment, where B = "10 ^ 5"]])
      simp_all
  have "round2 (js_mul (to_double 864.26) (Fin 36)) = to_double (of_int 3111336 / 100)"
    by (rule round2_enclosed [OF a, where B = "10 ^ 7"]) simp_all
  then show ?thesis by simp
qed

lemma enclosed_total:
  "enclosed (to_double 31113.36) (31113.36 - 1 / 10 ^ 10) (31113.36 + 1 / 10 ^ 10)"
  by (rule enclosed_weaken [OF enclosed_literal [where B = "10 ^ 5"]]) simp_all

lemma default_interest:
  "round2 (js_sub (to_double 31113.36) (to_double 28536.45)) = to_double 2576.91"
proof -
  have a: "enclosed (js_sub (to_double 31113.36) (to_double 28536.45))
             (2576.91 - 1 / 10 ^ 9) (2576.91 + 1 / 10 ^ 9)"
    by (rule enclosed_weaken [OF enclosed_sub [OF enclosed_total enclosed_base, where B = "10 ^ 4"]])
      simp_all
  have "round2 (js_sub (to_double 31113.36) (to_double 28536.45)) = to_double (of_int 257691 / 100)"
    by (rule round2_enclosed [OF a, where B = "10 ^ 6"]) simp_all
  then show ?thesis by simp
qed

subsection \<open>The default scenario\<close>

lemma default_taxes:
  "round2 (js_mul (Fin 28406) (js_div (Fin 7.5) (Fin 100))) = to_double 2130.45"
proof -
  have a: "enclosed (js_div (Fin 7.5) (Fin 100)) (0.075 - 1 / 10 ^ 14) (0.075 + 1 / 10 ^ 14)"
    by (rule enclosed_weaken [OF enclosed_div_const [where B = 1 and l = "7.5" and h = "7.5"]])
      (simp_all add: enclosed_Fin)
  have b: "enclosed (js_mul (Fin 28406) (js_div (Fin 7.5) (Fin 100)))
             (2130.45 - 1 / 10 ^ 9) (2130.45 + 1 / 10 ^ 9)"
    by (rule enclosed_weaken [OF enclosed_mul_pos [OF _ a, where B = "10 ^ 4" and ?l1.0 = 28406 and ?h1.0 = 28406]])
      (simp_all add: enclosed_Fin)
  have "round2 (js_mul (Fin 28406) (js_div (Fin 7.5) (Fin 100))) = to_double (of_int 213045 / 100)"
    by (rule round2_enclosed [OF b, where B = "10 ^ 6"]) simp_all
  then show ?thesis by simp
qed

lemma default_payment:
  "round2 (js_div (js_mul (to_double 28536.45) (js_div (js_div (to_double 5.7) (Fin 100)) (Fin 12)))
       (js_sub (Fin 1)
          (Math_pow (js_add (Fin 1) (js_div (js_div (to_double 5.7) (Fin 100)) (Fin 12)))
             (Fin (- 36))))) = to_double 864.26"
  by (rule default_payment_rounds
      [OF default_payment_quotient
        [OF enclosed_monthly_rate enclosed_base enclosed_growth [OF enclosed_monthly_rate]]])

lemma default_conditions:
  "js_le (Fin 36) (Fin 0) = False"
  "js_le (to_double 28536.45) (Fin 0) = False"
  "js_strict_eq (js_div (js_div (to_double 5.7) (Fin 100)) (Fin 12)) (Fin 0) = False"
  using enclosed_positive [OF enclosed_base] enclosed_positive [OF enclosed_monthly_rate]
  by simp_all

lemma default_core:
  "quote_core (Fin 28406) (Fin 7.5) (to_double 5.7) (Fin 36) (Fin 2000) =
     \<lparr>taxes = to_double 2130.45, baseLoanAmount = to_double 28536.45,
      interest = to_double 2576.91, totalLoanAmount = to_double 31113.36,
      payment = to_double 864.26\<rparr>"
  unfolding quote_core_def Let_def
  by (simp only: default_taxes default_base default_conditions js_neg.simps default_payment
      default_total default_interest if_False simp_thms)

lemma applyQuote_default_core:
  "applyQuote initial_form = quote_core (Fin 28406) (Fin 7.5) (to_double 5.7) (Fin 36) (Fin 2000)"
  by (simp add: applyQuote_core initial_form_def to_double_not_NaN)

lemma applyQuote_2_default_core:
  "applyQuote_2 initial_form = quote_core (Fin 28406) (Fin 7.5) (to_double 5.7) (Fin 36) (Fin 2000)"
  by (simp add: applyQuote_2_core initial_form_def)

lemma enclosed_literal_rate:
  "enclosed (to_double 0.00475) (0.00475 - 1 / 10 ^ 16) (0.00475 + 1 / 10 ^ 16)"
  by (rule enclosed_weaken [OF enclosed_literal [where B = "1 / 100"]]) simp_all

lemma enclosed_literal_growth: "enclosed (to_double 1.00475) 1.004749999999 1.004750000001"
  by (rule enclosed_weaken [OF enclosed_literal [where B = 2]]) simp_all

text \<open>
  Claim C2. On the default input (cost 26906, profit 1500, selling price 28406, term 36,
  rate 5.7, out of pocket 2000, tax rate 7.5) the calculator returns taxes \<open>2130.45\<close>, base
  loan amount \<open>28536.45\<close>, payment \<open>864.26\<close>, total loan amount \<open>31113.36\<close> and interest
  \<open>2576.91\<close>, in both variants. The payment is the quotient
  \<open>28536.45 * 0.00475 / (1 - 1.00475\<^sup>-\<^sup>3\<^sup>6)\<close>, which lies between \<open>864.2604\<close> and \<open>864.2605\<close>,
  rounded to cents; the total is the rounded payment times 36, rounded to cents; the
  interest is the rounded total less the rounded base, rounded to cents.
\<close>

theorem applyQuote_default_scenario:
  "applyQuote initial_form =
     \<lparr>taxes = to_double 2130.45, baseLoanAmount = to_double 28536.45,
      interest = to_double 2576.91, totalLoanAmount = to_double 31113.36,
      payment = to_double 864.26\<rparr>
   \<and> applyQuote_2 initial_form = applyQuote initial_form
   \<and> enclosed (js_div (js_mul (to_double 28536.45) (to_double 0.00475))
                 (js_sub (Fin 1) (Math_pow (to_double 1.00475) (Fin (- 36)))))
        864.2604 864.2605
   \<and> round2 (js_div (js_mul (to_double 28536.45) (to_double 0.00475))
                 (js_sub (Fin 1) (Math_pow (to_double 1.00475) (Fin (- 36)))))
        = to_double 864.26
   \<and> round2 (js_mul (to_double 864.26) (Fin 36)) = to_double 31113.36
   \<and> round2 (js_sub (to_double 31113.36) (to_double 28536.45)) = to_double 2576.91"
proof -
  have q: "enclosed (js_div (js_mul (to_double 28536.45) (to_double 0.00475))
                 (js_sub (Fin 1) (Math_pow (to_double 1.00475) (Fin (- 36)))))
        864.2604 864.2605"
    by (rule default_payment_quotient [OF enclosed_literal_rate enclosed_base enclosed_literal_growth])
  have "applyQuote initial_form =
     \<lparr>taxes = to_double 2130.45, baseLoanAmount = to_double 28536.45,
      interest = to_double 2576.91, totalLoanAmount = to_double 31113.36,
      payment = to_double 864.26\<rparr>"
    unfolding applyQuote_default_core by (rule default_core)
  moreover have "applyQuote_2 initial_form = applyQuote initial_form"
    unfolding applyQuote_default_core applyQuote_2_default_core ..
  ultimately show ?thesis
    using q default_payment_rounds [OF q] default_total default_interest by blast
qed

subsection \<open>A term that is not positive\<close>

lemma round2_zero: "round2 (Fin 0) = Fin 0"
  by (simp add: round2_def to_double_zero)

lemma round2_NaN: "round2 NaN = NaN"
  by (simp add: round2_def)

lemma js_div_NaN_right: "js_div a NaN = NaN"
  by (cases a) simp_all

lemma js_mul_NaN_right: "js_mul a NaN = NaN"
  by (cases a) simp_all

lemma js_add_NaN_right: "js_add a NaN = NaN"
  by (cases a) simp_all

text \<open>What \<open>round2\<close> returns is a double, so taking it from zero only changes its sign.\<close>

lemma round2_is_double:
  assumes "round2 v = Fin b"
  shows "to_double b = Fin b"
proof (cases "Math_round (js_mul v (Fin 100))")
  case (Fin x)
  with assms have "to_double (x / 100) = Fin b" by (simp add: round2_def)
  then show ?thesis by (rule to_double_idem)
next
  case PosInf
  with assms show ?thesis by (simp add: round2_def signed_inf_def)
next
  case NegInf
  with assms show ?thesis by (simp add: round2_def signed_inf_def)
next
  case NaN
  with assms show ?thesis by (simp add: round2_def)
qed

lemma js_sub_zero_round2: "js_sub (Fin 0) (round2 v) = js_neg (round2 v)"
proof (cases "round2 v")
  case (Fin b)
  have "to_double (- b) = js_neg (to_double b)" by (rule to_double_minus)
  also have "\<dots> = Fin (- b)" using round2_is_double [OF Fin] by simp
  finally show ?thesis using Fin by (simp add: js_sub_def)
qed (simp_all add: js_sub_def)

lemma core_nonpositive_term:
  assumes "t \<le> 0"
  shows "quote_core s tp rp (Fin t) d =
    \<lparr>taxes = round2 (js_mul s (js_div tp (Fin 100))),
     baseLoanAmount = round2 (js_sub (js_add s (round2 (js_mul s (js_div tp (Fin 100))))) d),
     interest = round2 (js_neg (round2 (js_sub (js_add s (round2 (js_mul s (js_div tp (Fin 100))))) d))),
     totalLoanAmount = Fin 0, payment = Fin 0\<rparr>"
  using assms
  by (simp add: quote_core_def Let_def to_double_zero round2_zero js_sub_zero_round2)

text \<open>
  Claim C4, as the code has it. When the term, after coercion, is a finite number that is
  not positive, the payment and the total loan amount are \<open>0\<close> and the interest is
  \<open>round2 (- baseLoanAmount)\<close>, while taxes and base loan amount are computed as always
  from selling price, tax rate and out-of-pocket amount. Both variants.
\<close>

theorem applyQuote_nonpositive_term:
  assumes "t \<le> 0"
  shows "(safeNum (termMonths form) = Fin t \<longrightarrow>
            payment (applyQuote form) = Fin 0
          \<and> totalLoanAmount (applyQuote form) = Fin 0
          \<and> interest (applyQuote form) = round2 (js_neg (baseLoanAmount (applyQuote form)))
          \<and> taxes (applyQuote form) =
              round2 (js_mul (safeNum (sellingPrice form))
                        (js_div (safeNum (taxRate form)) (Fin 100)))
          \<and> baseLoanAmount (applyQuote form) =
              round2 (js_sub (js_add (safeNum (sellingPrice form)) (taxes (applyQuote form)))
                        (safeNum (outOfPocket form))))
       \<and> (num_2 (termMonths form) = Fin t \<longrightarrow>
            payment (applyQuote_2 form) = Fin 0
          \<and> totalLoanAmount (applyQuote_2 form) = Fin 0
          \<and> interest (applyQuote_2 form) = round_2 (js_neg (baseLoanAmount (applyQuote_2 form)))
          \<and> taxes (applyQuote_2 form) =
              round_2 (js_mul (num_2 (sellingPrice form))
                         (js_div (num_2 (taxRate form)) (Fin 100)))
          \<and> baseLoanAmount (applyQuote_2 form) =
              round_2 (js_sub (js_add (num_2 (sellingPrice form)) (taxes (applyQuote_2 form)))
                         (num_2 (outOfPocket form))))"
  by (simp add: applyQuote_core applyQuote_2_core round_2_eq_round2
      core_nonpositive_term [OF assms])

text \<open>The theorem on the default form with the term set to \<open>-12\<close> months.\<close>

theorem applyQuote_nonpositive_term_witness:
  "(- 12 :: real) \<le> 0
   \<and> safeNum (termMonths (initial_form\<lparr>termMonths := JNumber (Fin (- 12))\<rparr>)) = Fin (- 12)
   \<and> num_2 (termMonths (initial_form\<lparr>termMonths := JNumber (Fin (- 12))\<rparr>)) = Fin (- 12)
   \<and> payment (applyQuote (initial_form\<lparr>termMonths := JNumber (Fin (- 12))\<rparr>)) = Fin 0
   \<and> totalLoanAmount (applyQuote (initial_form\<lparr>termMonths := JNumber (Fin (- 12))\<rparr>)) = Fin 0
   \<and> payment (applyQuote_2 (initial_form\<lparr>termMonths := JNumber (Fin (- 12))\<rparr>)) = Fin 0
   \<and> totalLoanAmount (applyQuote_2 (initial_form\<lparr>termMonths := JNumber (Fin (- 12))\<rparr>)) = Fin 0"
proof -
  let ?form = "initial_form\<lparr>termMonths := JNumber (Fin (- 12))\<rparr>"
  have h: "(- 12 :: real) \<le> 0" by simp
  have a: "safeNum (termMonths ?form) = Fin (- 12)" by simp
  have b: "num_2 (termMonths ?form) = Fin (- 12)" by simp
  show ?thesis
    using h a b applyQuote_nonpositive_term [OF h, of ?form] by blast
qed

text \<open>
  Claim C4 as it is written fails when the term is minus infinity, which is a number not
  above zero: the payment is \<open>0\<close>, but the total loan amount is \<open>0 * -Infinity\<close>, which is
  NaN, and so is the interest.
\<close>

theorem applyQuote_term_minus_infinity:
  "js_le (safeNum (termMonths (initial_form\<lparr>termMonths := JNumber NegInf\<rparr>))) (Fin 0)
   \<and> payment (applyQuote (initial_form\<lparr>termMonths := JNumber NegInf\<rparr>)) = Fin 0
   \<and> totalLoanAmount (applyQuote (initial_form\<lparr>termMonths := JNumber NegInf\<rparr>)) = NaN
   \<and> totalLoanAmount (applyQuote (initial_form\<lparr>termMonths := JNumber NegInf\<rparr>)) \<noteq> Fin 0"
  by (simp add: applyQuote_core quote_core_def Let_def round2_def signed_inf_def)

subsection \<open>Fields that are missing, not numbers, or NaN\<close>

text \<open>
  The first variant takes every field that is null, undefined, a string or NaN as \<open>0\<close>,
  so a form and the same form with such fields replaced by \<open>0\<close> give the same result.
\<close>

lemma safeNum_coerces_to_zero:
  "safeNum JNull = Fin 0" "safeNum JUndefined = Fin 0" "safeNum (JString s) = Fin 0"
  "safeNum (JNumber NaN) = Fin 0"
  by simp_all

lemma safeNum_never_NaN: "safeNum v \<noteq> NaN"
  by (cases v) auto

lemma applyQuote_NaN_as_zero:
  "applyQuote (form\<lparr>rate := JNumber NaN\<rparr>) = applyQuote (form\<lparr>rate := JNumber (Fin 0)\<rparr>)"
  "applyQuote (form\<lparr>termMonths := JNumber NaN\<rparr>) =
     applyQuote (form\<lparr>termMonths := JNumber (Fin 0)\<rparr>)"
  by (simp_all add: applyQuote_def)

lemma num_2_coerces_to_zero:
  "num_2 JNull = Fin 0" "num_2 JUndefined = Fin 0" "num_2 (JString s) = Fin 0"
  by simp_all

lemma num_2_keeps_NaN: "num_2 (JNumber NaN) = NaN"
  by simp

lemma default_interest_at_zero_term:
  "round2 (js_neg (to_double 28536.45)) = to_double (- 28536.45)"
proof -
  have a: "enclosed (js_neg (to_double 28536.45)) (- 28536.45 - 1 / 10 ^ 10) (- 28536.45 + 1 / 10 ^ 10)"
    by (rule enclosed_weaken [OF enclosed_neg [OF enclosed_base]]) simp_all
  have "round2 (js_neg (to_double 28536.45)) = to_double (of_int (- 2853645) / 100)"
    by (rule round2_enclosed [OF a, where B = "10 ^ 7"]) simp_all
  then show ?thesis by simp
qed

lemma default_core_zero_term:
  "quote_core (Fin 28406) (Fin 7.5) (to_double 5.7) (Fin 0) (Fin 2000) =
     \<lparr>taxes = to_double 2130.45, baseLoanAmount = to_double 28536.45,
      interest = to_double (- 28536.45), totalLoanAmount = Fin 0, payment = Fin 0\<rparr>"
proof -
  have z: "(0 :: real) \<le> 0" by simp
  show ?thesis
    unfolding core_nonpositive_term [OF z]
    by (simp only: default_taxes default_base default_interest_at_zero_term)
qed

lemma js_sub_NaN: "js_sub a NaN = NaN" "js_sub NaN b = NaN"
  by (simp_all add: js_sub_def js_add_NaN_right)

lemma Math_pow_NaN_exponent: "Math_pow b NaN = NaN"
  by (simp add: Math_pow_def)

lemma default_core_NaN_term:
  "quote_core (Fin 28406) (Fin 7.5) (to_double 5.7) NaN (Fin 2000) =
     \<lparr>taxes = to_double 2130.45, baseLoanAmount = to_double 28536.45,
      interest = NaN, totalLoanAmount = NaN, payment = NaN\<rparr>"
  unfolding quote_core_def Let_def
  by (simp only: default_taxes default_base default_conditions js_le.simps js_neg.simps
      Math_pow_NaN_exponent js_sub_NaN js_div_NaN_right round2_NaN js_mul.simps
      if_False simp_thms)

text \<open>
  Claim C5 on the second variant. Its \<open>num\<close> lets NaN through, so on the default form with
  the term set to NaN the payment, the total loan amount and the interest are NaN, while
  with the term set to \<open>0\<close> they are \<open>0\<close>, \<open>0\<close> and \<open>-28536.45\<close>, which is also what the first
  variant returns for the term NaN.
\<close>

theorem applyQuote_2_term_NaN:
  "applyQuote_2 (initial_form\<lparr>termMonths := JNumber NaN\<rparr>) =
     \<lparr>taxes = to_double 2130.45, baseLoanAmount = to_double 28536.45, interest = NaN,
      totalLoanAmount = NaN, payment = NaN\<rparr>
   \<and> applyQuote_2 (initial_form\<lparr>termMonths := JNumber (Fin 0)\<rparr>) =
     \<lparr>taxes = to_double 2130.45, baseLoanAmount = to_double 28536.45,
      interest = to_double (- 28536.45), totalLoanAmount = Fin 0, payment = Fin 0\<rparr>
   \<and> applyQuote (initial_form\<lparr>termMonths := JNumber NaN\<rparr>) =
     \<lparr>taxes = to_double 2130.45, baseLoanAmount = to_double 28536.45,
      interest = to_double (- 28536.45), totalLoanAmount = Fin 0, payment = Fin 0\<rparr>"
proof -
  have a: "applyQuote_2 (initial_form\<lparr>termMonths := JNumber NaN\<rparr>) =
      quote_core (Fin 28406) (Fin 7.5) (to_double 5.7) NaN (Fin 2000)"
    by (simp add: applyQuote_2_core initial_form_def)
  have b: "applyQuote_2 (initial_form\<lparr>termMonths := JNumber (Fin 0)\<rparr>) =
      quote_core (Fin 28406) (Fin 7.5) (to_double 5.7) (Fin 0) (Fin 2000)"
    by (simp add: applyQuote_2_core initial_form_def)
  have c: "applyQuote (initial_form\<lparr>termMonths := JNumber NaN\<rparr>) =
      quote_core (Fin 28406) (Fin 7.5) (to_double 5.7) (Fin 0) (Fin 2000)"
    by (simp add: applyQuote_core initial_form_def to_double_not_NaN)
  show ?thesis
    unfolding a b c using default_core_NaN_term default_core_zero_term by blast
qed

section \<open>Properties of the field synchroniser\<close>

lemma round_trip_core:
  fixes S C :: int
  assumes S: "\<bar>S\<bar> \<le> 10 ^ 13" and C: "\<bar>C\<bar> \<le> 10 ^ 13"
  shows "round2 (js_sub (to_double (of_int S / 100)) (to_double (of_int C / 100)))
           = to_double (of_int (S - C) / 100)"
    and "round2 (js_add (to_double (of_int C / 100)) (to_double (of_int (S - C) / 100)))
           = to_double (of_int S / 100)"
proof -
  let ?s = "of_int S / 100 :: real" and ?c = "of_int C / 100 :: real"
  let ?d = "of_int (S - C) / 100 :: real"
  have Sr: "\<bar>of_int S :: real\<bar> \<le> 10 ^ 13"
    using S by (metis of_int_abs of_int_le_numeral_power_cancel_iff)
  have Cr: "\<bar>of_int C :: real\<bar> \<le> 10 ^ 13"
    using C by (metis of_int_abs of_int_le_numeral_power_cancel_iff)
  have S1: "- (10 ^ 13) \<le> (of_int S :: real)" and S2: "(of_int S :: real) \<le> 10 ^ 13"
    using Sr by linarith+
  have C1: "- (10 ^ 13) \<le> (of_int C :: real)" and C2: "(of_int C :: real) \<le> 10 ^ 13"
    using Cr by linarith+
  have s: "enclosed (to_double ?s) (?s - 1 / 10 ^ 4) (?s + 1 / 10 ^ 4)"
    by (rule enclosed_weaken [OF enclosed_literal [where B = "10 ^ 11"]])
      (use S1 S2 in simp_all)
  have c: "enclosed (to_double ?c) (?c - 1 / 10 ^ 4) (?c + 1 / 10 ^ 4)"
    by (rule enclosed_weaken [OF enclosed_literal [where B = "10 ^ 11"]])
      (use C1 C2 in simp_all)
  have d: "enclosed (to_double ?d) (?d - 1 / 10 ^ 3) (?d + 1 / 10 ^ 3)"
    by (rule enclosed_weaken [OF enclosed_literal [where B = "10 ^ 12"]])
      (use S1 S2 C1 C2 in \<open>simp_all add: diff_divide_distrib, (linarith+)?\<close>)
  have sub: "enclosed (js_sub (to_double ?s) (to_double ?c)) (?d - 2 / 10 ^ 3) (?d + 2 / 10 ^ 3)"
    by (rule enclosed_weaken [OF enclosed_sub [OF s c, where B = "10 ^ 12"]])
      (use S1 S2 C1 C2 in \<open>simp_all add: diff_divide_distrib, (linarith+)?\<close>)
  show "round2 (js_sub (to_double ?s) (to_double ?c)) = to_double ?d"
    by (rule round2_enclosed [OF sub, where B = "10 ^ 14"])
      (use S1 S2 C1 C2 in \<open>simp_all add: diff_divide_distrib, (linarith+)?\<close>)
  have add: "enclosed (js_add (to_double ?c) (to_double ?d)) (?s - 3 / 10 ^ 3) (?s + 3 / 10 ^ 3)"
    by (rule enclosed_weaken [OF enclosed_add [OF c d, where B = "10 ^ 12"]])
      (use S1 S2 C1 C2 in \<open>simp_all add: diff_divide_distrib, (linarith+)?\<close>)
  show "round2 (js_add (to_double ?c) (to_double ?d)) = to_double ?s"
    by (rule round2_enclosed [OF add, where B = "10 ^ 14"])
      (use S1 S2 C1 C2 in \<open>simp_all add: diff_divide_distrib, (linarith+)?\<close>)
qed

text \<open>
  Claim C6, as the code has it. When the selling price is a whole number of cents and
  the cost, after coercion, is one too (a missing cost counts as \<open>0\<close>), both at most
  \<open>10\<^sup>1\<^sup>3\<close> cents in magnitude, recomputing the profit from the selling price and then the
  selling price from cost and profit gives the selling price back and leaves the cost
  alone. Both variants.
\<close>

theorem round_trip_restores_whole_cent_price:
  fixes S C :: int
  assumes "\<bar>S\<bar> \<le> 10 ^ 13" and "\<bar>C\<bar> \<le> 10 ^ 13"
    and "sellingPrice form = JNumber (to_double (of_int S / 100))"
  shows "(safeNum (cost form) = to_double (of_int C / 100) \<longrightarrow>
            sellingPrice (updateSellingFromCostAndProfit (updateProfitFromCostAndSelling form))
              = sellingPrice form
          \<and> cost (updateSellingFromCostAndProfit (updateProfitFromCostAndSelling form))
              = cost form)
       \<and> (num_2 (cost form) = to_double (of_int C / 100) \<longrightarrow>
            sellingPrice (updateSelling (updateProfit form)) = sellingPrice form
          \<and> cost (updateSelling (updateProfit form)) = cost form)"
  using assms(3) round_trip_core [OF assms(1,2)]
  by (simp add: updateSellingFromCostAndProfit_def updateProfitFromCostAndSelling_def
      updateSelling_def updateProfit_def Let_def round_2_eq_round2 to_double_not_NaN)

text \<open>
  The theorem on the default form with the selling price edited to \<open>28999.99\<close>, and on the
  same form with the cost field empty.
\<close>

theorem round_trip_restores_whole_cent_price_witness:
  "\<bar>2899999 :: int\<bar> \<le> 10 ^ 13 \<and> \<bar>2690600 :: int\<bar> \<le> 10 ^ 13 \<and> \<bar>0 :: int\<bar> \<le> 10 ^ 13
   \<and> sellingPrice (initial_form\<lparr>sellingPrice := JNumber (to_double 28999.99)\<rparr>)
       = JNumber (to_double (of_int 2899999 / 100))
   \<and> safeNum (cost (initial_form\<lparr>sellingPrice := JNumber (to_double 28999.99)\<rparr>))
       = to_double (of_int 2690600 / 100)
   \<and> num_2 (cost (initial_form\<lparr>sellingPrice := JNumber (to_double 28999.99)\<rparr>))
       = to_double (of_int 2690600 / 100)
   \<and> sellingPrice (updateSellingFromCostAndProfit (updateProfitFromCostAndSelling
         (initial_form\<lparr>sellingPrice := JNumber (to_double 28999.99)\<rparr>)))
       = JNumber (to_double 28999.99)
   \<and> sellingPrice (updateSelling (updateProfit
         (initial_form\<lparr>sellingPrice := JNumber (to_double 28999.99)\<rparr>)))
       = JNumber (to_double 28999.99)
   \<and> safeNum (cost (initial_form\<lparr>sellingPrice := JNumber (to_double 28999.99), cost := JNull\<rparr>))
       = to_double (of_int 0 / 100)
   \<and> num_2 (cost (initial_form\<lparr>sellingPrice := JNumber (to_double 28999.99), cost := JNull\<rparr>))
       = to_double (of_int 0 / 100)
   \<and> sellingPrice (updateSellingFromCostAndProfit (updateProfitFromCostAndSelling
         (initial_form\<lparr>sellingPrice := JNumber (to_double 28999.99), cost := JNull\<rparr>)))
       = JNumber (to_double 28999.99)
   \<and> sellingPrice (updateSelling (updateProfit
         (initial_form\<lparr>sellingPrice := JNumber (to_double 28999.99), cost := JNull\<rparr>)))
       = JNumber (to_double 28999.99)"
proof -
  let ?form = "initial_form\<lparr>sellingPrice := JNumber (to_double 28999.99)\<rparr>"
  let ?bare = "initial_form\<lparr>sellingPrice := JNumber (to_double 28999.99), cost := JNull\<rparr>"
  have s: "\<bar>2899999 :: int\<bar> \<le> 10 ^ 13" and c: "\<bar>2690600 :: int\<bar> \<le> 10 ^ 13"
    and z: "\<bar>0 :: int\<bar> \<le> 10 ^ 13" by simp_all
  have p: "sellingPrice ?form = JNumber (to_double (of_int 2899999 / 100))" by simp
  have p': "sellingPrice ?bare = JNumber (to_double (of_int 2899999 / 100))" by simp
  have "to_double (of_int 2690600 / 100) = Fin 26906"
    using to_double_int [of 26906] by simp
  then have a: "safeNum (cost ?form) = to_double (of_int 2690600 / 100)"
    and b: "num_2 (cost ?form) = to_double (of_int 2690600 / 100)"
    by (simp_all add: initial_form_def)
  have a': "safeNum (cost ?bare) = to_double (of_int 0 / 100)"
    and b': "num_2 (cost ?bare) = to_double (of_int 0 / 100)"
    by (simp_all add: to_double_zero)
  have q: "sellingPrice ?form = JNumber (to_double 28999.99)" by simp
  have q': "sellingPrice ?bare = JNumber (to_double 28999.99)" by simp
  from a b round_trip_restores_whole_cent_price [OF s c p]
  have r: "sellingPrice (updateSellingFromCostAndProfit (updateProfitFromCostAndSelling ?form))
          = sellingPrice ?form"
    "sellingPrice (updateSelling (updateProfit ?form)) = sellingPrice ?form"
    by blast+
  from a' b' round_trip_restores_whole_cent_price [OF s z p']
  have r': "sellingPrice (updateSellingFromCostAndProfit (updateProfitFromCostAndSelling ?bare))
          = sellingPrice ?bare"
    "sellingPrice (updateSelling (updateProfit ?bare)) = sellingPrice ?bare"
    by blast+
  show ?thesis using s c z p a b a' b' r r' unfolding q q' by blast
qed

lemma sub_cent_profit:
  "round2 (js_sub (Fin 28406.125) (Fin 26906)) = to_double 1500.13"
proof -
  have "to_double (of_int 12001 / 2 ^ 3) = Fin (of_int 12001 / 2 ^ 3)"
    by (rule to_double_dyadic) simp_all
  then have a: "js_sub (Fin 28406.125) (Fin 26906) = Fin 1500.125"
    by (simp add: js_sub_def)
  have "to_double (of_int 300025 / 2 ^ 1) = Fin (of_int 300025 / 2 ^ 1)"
    by (rule to_double_dyadic) simp_all
  then have b: "js_mul (Fin 1500.125) (Fin 100) = Fin 150012.5"
    by simp
  have c: "\<lfloor>150012.5 + 1 / 2 :: real\<rfloor> = 150013" by simp
  have "round2 (Fin 1500.125) = to_double (of_int 150013 / 100)"
    unfolding round2_def b by (simp only: Math_round.simps c js_div.simps) simp
  then show ?thesis unfolding a by simp
qed

lemma sub_cent_price:
  "round2 (js_add (Fin 26906) (to_double 1500.13)) = to_double 28406.13"
proof -
  have p: "enclosed (to_double 1500.13) (1500.13 - 1 / 10 ^ 11) (1500.13 + 1 / 10 ^ 11)"
    by (rule enclosed_weaken [OF enclosed_literal [where B = "10 ^ 4"]]) simp_all
  have a: "enclosed (js_add (Fin 26906) (to_double 1500.13))
             (28406.13 - 1 / 10 ^ 9) (28406.13 + 1 / 10 ^ 9)"
    by (rule enclosed_weaken [OF enclosed_add [OF _ p,
            where B = "10 ^ 5" and ?l1.0 = 26906 and ?h1.0 = 26906]])
      (simp_all add: enclosed_Fin)
  have "round2 (js_add (Fin 26906) (to_double 1500.13)) = to_double (of_int 2840613 / 100)"
    by (rule round2_enclosed [OF a, where B = "10 ^ 7"]) simp_all
  then show ?thesis by simp
qed

lemma sub_cent_differs: "to_double 28406.13 \<noteq> Fin 28406.125"
proof -
  have "enclosed (to_double 28406.13) 28406.129 28406.131"
    by (rule enclosed_weaken [OF enclosed_literal [where B = "10 ^ 5"]]) simp_all
  then show ?thesis by (auto elim!: enclosedE)
qed

lemma round_trip_value:
  assumes "sellingPrice form = JNumber s" and "cost form = JNumber c"
    and "s \<noteq> NaN" and "c \<noteq> NaN" and "round2 (js_sub s c) \<noteq> NaN"
  shows "sellingPrice (updateSellingFromCostAndProfit (updateProfitFromCostAndSelling form))
           = JNumber (round2 (js_add c (round2 (js_sub s c))))"
    and "sellingPrice (updateSelling (updateProfit form))
           = JNumber (round2 (js_add c (round2 (js_sub s c))))"
  using assms
  by (simp_all add: updateSellingFromCostAndProfit_def updateProfitFromCostAndSelling_def
      updateSelling_def updateProfit_def Let_def round_2_eq_round2)

text \<open>
  Claim C6 as it is written fails for a selling price with a fraction of a cent: on the
  default form with the selling price edited to \<open>28406.125\<close> the profit becomes
  \<open>1500.13\<close> and the selling price comes back as \<open>28406.13\<close>.
\<close>

theorem round_trip_loses_sub_cent_price:
  "sellingPrice (updateSellingFromCostAndProfit (updateProfitFromCostAndSelling
       (initial_form\<lparr>sellingPrice := JNumber (Fin 28406.125)\<rparr>))) = JNumber (to_double 28406.13)
   \<and> sellingPrice (updateSelling (updateProfit
       (initial_form\<lparr>sellingPrice := JNumber (Fin 28406.125)\<rparr>))) = JNumber (to_double 28406.13)
   \<and> sellingPrice (updateSellingFromCostAndProfit (updateProfitFromCostAndSelling
       (initial_form\<lparr>sellingPrice := JNumber (Fin 28406.125)\<rparr>)))
      \<noteq> sellingPrice (initial_form\<lparr>sellingPrice := JNumber (Fin 28406.125)\<rparr>)"
proof -
  let ?form = "initial_form\<lparr>sellingPrice := JNumber (Fin 28406.125)\<rparr>"
  have s: "sellingPrice ?form = JNumber (Fin 28406.125)" by simp
  have c: "cost ?form = JNumber (Fin 26906)" by (simp add: initial_form_def)
  have n: "round2 (js_sub (Fin 28406.125) (Fin 26906)) \<noteq> NaN"
    unfolding sub_cent_profit by (rule to_double_not_NaN)
  have v: "round2 (js_add (Fin 26906) (round2 (js_sub (Fin 28406.125) (Fin 26906))))
      = to_double 28406.13"
    unfolding sub_cent_profit by (rule sub_cent_price)
  have a: "sellingPrice (updateSellingFromCostAndProfit (updateProfitFromCostAndSelling ?form))
      = JNumber (to_double 28406.13)"
    using round_trip_value(1) [OF s c _ _ n] unfolding v by simp
  have b: "sellingPrice (updateSelling (updateProfit ?form)) = JNumber (to_double 28406.13)"
    using round_trip_value(2) [OF s c _ _ n] unfolding v by simp
  have "JNumber (to_double 28406.13) \<noteq> JNumber (Fin 28406.125)"
    using sub_cent_differs by simp
  then show ?thesis unfolding a b s by simp
qed

section \<open>Properties of the identifiers\<close>

lemma digit_char_inj:
  assumes "a < 10" and "b < 10" and "digit_char a = digit_char b"
  shows "a = b"
proof -
  have A: "a \<in> {0, 1, 2, 3, 4, 5, 6, 7, 8, 9}" using assms(1) by auto
  have B: "b \<in> {0, 1, 2, 3, 4, 5, 6, 7, 8, 9}" using assms(2) by auto
  show ?thesis using A B assms(3) by (auto simp: digit_char_def)
qed

lemma digit_char_not_minus:
  assumes "d < 10"
  shows "digit_char d \<noteq> CHR ''-''"
proof -
  have "d \<in> {0, 1, 2, 3, 4, 5, 6, 7, 8, 9}" using assms by auto
  then show ?thesis by (auto simp: digit_char_def)
qed

lemma digits_nonempty: "digits n \<noteq> []"
  by (subst digits.simps) simp

lemma last_digits: "last (digits n) = digit_char (n mod 10)"
  by (subst digits.simps) simp

lemma butlast_digits: "butlast (digits n) = (if n < 10 then [] else digits (n div 10))"
  by (subst digits.simps) simp

lemma digits_inj: "digits n = digits m \<Longrightarrow> n = m"
proof (induction n arbitrary: m rule: digits.induct)
  case (1 n)
  from "1.prems" have "digit_char (n mod 10) = digit_char (m mod 10)"
    by (metis last_digits)
  then have units: "n mod 10 = m mod 10"
    by (intro digit_char_inj) simp_all
  from "1.prems" have front: "butlast (digits n) = butlast (digits m)" by simp
  show ?case
  proof (cases "n < 10")
    case True
    with front have "m < 10"
      using digits_nonempty [of "m div 10"] by (auto simp: butlast_digits split: if_splits)
    with True units show ?thesis by simp
  next
    case False
    with front have "\<not> m < 10" and "digits (n div 10) = digits (m div 10)"
      using digits_nonempty [of "n div 10"] by (auto simp: butlast_digits split: if_splits)
    then have "n div 10 = m div 10" using "1.IH" False by blast
    with units show ?thesis by (metis div_mult_mod_eq)
  qed
qed

lemma hd_digits_not_minus: "hd (digits n) \<noteq> CHR ''-''"
proof (induction n rule: digits.induct)
  case (1 n)
  show ?case
  proof (cases "n < 10")
    case True
    then show ?thesis by (subst digits.simps) (simp add: digit_char_not_minus)
  next
    case False
    then have "hd (digits n) = hd (digits (n div 10))"
      by (subst digits.simps) (simp add: digits_nonempty)
    with 1 False show ?thesis by simp
  qed
qed

text \<open>Different clock readings give different identifiers.\<close>

lemma Number_toString_inj:
  assumes "Number_toString a = Number_toString b"
  shows "a = b"
proof -
  have sign: "CHR ''-'' # digits x \<noteq> digits y \<and> digits y \<noteq> CHR ''-'' # digits x" for x y
    by (metis hd_digits_not_minus list.sel(1))
  show ?thesis
  proof (cases "a < 0")
    case True
    with assms sign have b: "b < 0" by (auto simp: Number_toString_def split: if_splits)
    with True assms have "nat (- a) = nat (- b)"
      by (auto simp: Number_toString_def dest: digits_inj)
    with True b show ?thesis by simp
  next
    case False
    with assms sign have b: "\<not> b < 0" by (auto simp: Number_toString_def split: if_splits)
    with False assms have "nat a = nat b"
      by (auto simp: Number_toString_def dest: digits_inj)
    with False b show ?thesis by simp
  qed
qed

section \<open>Properties of the store\<close>

lemma readQuotes_writeQuotes: "readQuotes (writeQuotes quotes f) = quotes"
  by (simp add: readQuotes_def writeQuotes_def JSON_stringify_def)

lemma readQuotes_get: "readQuotes (snd (get_quotes f)) = readQuotes f"
  by (simp add: get_quotes_def)

lemma readQuotes_post:
  "readQuotes (snd (post_quotes now isoNow body f)) =
     \<lparr>quote_id = Number_toString now, createdAt = isoNow, payload = body\<rparr> # readQuotes f"
  by (simp add: post_quotes_def Let_def readQuotes_writeQuotes)

lemma filter_same_length: "length (filter P xs) = length xs \<longleftrightarrow> (\<forall>x \<in> set xs. P x)"
proof
  assume "length (filter P xs) = length xs"
  then show "\<forall>x \<in> set xs. P x"
    using length_filter_less [of _ xs P] by fastforce
next
  assume "\<forall>x \<in> set xs. P x"
  then show "length (filter P xs) = length xs" by simp
qed

lemma readQuotes_delete:
  "readQuotes (snd (delete_quotes i f)) = filter (\<lambda>q. quote_id q \<noteq> i) (readQuotes f)"
proof (cases "length (filter (\<lambda>q. quote_id q \<noteq> i) (readQuotes f)) = length (readQuotes f)")
  case True
  then have "filter (\<lambda>q. quote_id q \<noteq> i) (readQuotes f) = readQuotes f"
    by (simp add: filter_same_length)
  with True show ?thesis by (simp add: delete_quotes_def Let_def)
next
  case False
  then show ?thesis by (simp add: delete_quotes_def Let_def readQuotes_writeQuotes)
qed

lemma delete_response:
  "fst (delete_quotes i f) =
     (if i \<in> quote_id ` set (readQuotes f) then NoContent204 else NotFound404)"
  by (auto simp: delete_quotes_def Let_def filter_same_length)

text \<open>
  Claim C1, as the code has it. The identifier of a new record is the decimal numeral of
  the millisecond clock reading at its creation. Starting from a collection whose
  identifiers are pairwise distinct, after any sequence of list, create and delete
  requests in which the creations have pairwise distinct clock readings, none of them
  the identifier of a record already stored, the identifiers in the persisted collection
  are pairwise distinct.
\<close>

theorem ids_distinct_for_distinct_clock_readings:
  assumes "distinct (map quote_id (readQuotes f))"
    and "distinct (clock_readings rs)"
    and "\<forall>t \<in> set (clock_readings rs). Number_toString t \<notin> quote_id ` set (readQuotes f)"
  shows "distinct (map quote_id (readQuotes (serve rs f)))"
  using assms
proof (induction rs arbitrary: f)
  case Nil
  then show ?case by simp
next
  case (Cons r rs)
  show ?case
  proof (cases r)
    case GET
    with Cons.prems have "distinct (map quote_id (readQuotes (serve rs f)))"
      by (intro Cons.IH) simp_all
    with GET show ?thesis by (simp add: get_quotes_def)
  next
    case (POST now isoNow body)
    let ?f' = "snd (post_quotes now isoNow body f)"
    from POST Cons.prems have new: "Number_toString now \<notin> quote_id ` set (readQuotes f)"
      and later: "distinct (clock_readings rs)" and once: "now \<notin> set (clock_readings rs)"
      and old: "\<forall>t \<in> set (clock_readings rs). Number_toString t \<notin> quote_id ` set (readQuotes f)"
      by simp_all
    have d: "distinct (map quote_id (readQuotes ?f'))"
      using Cons.prems(1) new by (simp add: readQuotes_post)
    have fresh: "\<forall>t \<in> set (clock_readings rs). Number_toString t \<notin> quote_id ` set (readQuotes ?f')"
    proof
      fix t assume t: "t \<in> set (clock_readings rs)"
      with once have "t \<noteq> now" by blast
      then have "Number_toString t \<noteq> Number_toString now"
        using Number_toString_inj by blast
      with old t show "Number_toString t \<notin> quote_id ` set (readQuotes ?f')"
        by (simp add: readQuotes_post)
    qed
    have "distinct (map quote_id (readQuotes (serve rs ?f')))"
      by (rule Cons.IH [OF d later fresh])
    with POST show ?thesis by simp
  next
    case (DELETE i)
    let ?f' = "snd (delete_quotes i f)"
    have d: "distinct (map quote_id (readQuotes ?f'))"
      using Cons.prems(1) by (simp add: readQuotes_delete distinct_map_filter)
    have fresh: "\<forall>t \<in> set (clock_readings rs). Number_toString t \<notin> quote_id ` set (readQuotes ?f')"
      using Cons.prems(3) DELETE by (auto simp: readQuotes_delete)
    have "distinct (map quote_id (readQuotes (serve rs ?f')))"
      using Cons.prems(2) DELETE by (intro Cons.IH [OF d _ fresh]) simp
    with DELETE show ?thesis by simp
  qed
qed

text \<open>
  The theorem on a store with no file yet: two creations at the readings \<open>1\<close> and \<open>2\<close>,
  then the deletion of the first record.
\<close>

theorem ids_distinct_for_distinct_clock_readings_witness:
  "distinct (map quote_id (readQuotes (NoFile :: unit data_file)))
   \<and> distinct (clock_readings [POST 1 ''a'' (), POST 2 ''b'' (), DELETE ''1''])
   \<and> Number_toString ` set (clock_readings [POST 1 ''a'' (), POST 2 ''b'' (), DELETE ''1''])
        \<inter> quote_id ` set (readQuotes (NoFile :: unit data_file)) = {}
   \<and> distinct (map quote_id
         (readQuotes (serve [POST 1 ''a'' (), POST 2 ''b'' (), DELETE ''1''] NoFile)))"
proof -
  have a: "distinct (map quote_id (readQuotes (NoFile :: unit data_file)))"
    by (simp add: readQuotes_def)
  have b: "distinct (clock_readings [POST 1 ''a'' (), POST 2 ''b'' (), DELETE ''1''])"
    by simp
  have c: "\<forall>t \<in> set (clock_readings [POST 1 ''a'' (), POST 2 ''b'' (), DELETE ''1'']).
         Number_toString t \<notin> quote_id ` set (readQuotes (NoFile :: unit data_file))"
    by (simp add: readQuotes_def)
  have c': "Number_toString ` set (clock_readings [POST 1 ''a'' (), POST 2 ''b'' (), DELETE ''1''])
        \<inter> quote_id ` set (readQuotes (NoFile :: unit data_file)) = {}"
    by (simp add: readQuotes_def)
  show ?thesis
    using a b c' ids_distinct_for_distinct_clock_readings [OF a b c] by blast
qed

text \<open>
  Claim C1 as it is written fails for two creations within one millisecond: both records
  get the identifier of the same clock reading.
\<close>

theorem same_millisecond_same_id:
  "map quote_id (readQuotes (serve
       [POST 1700000000000 ''2023-11-14T22:13:20.000Z'' (),
        POST 1700000000000 ''2023-11-14T22:13:20.000Z'' ()] NoFile))
     = [''1700000000000'', ''1700000000000'']
   \<and> \<not> distinct (map quote_id (readQuotes (serve
       [POST 1700000000000 ''2023-11-14T22:13:20.000Z'' (),
        POST 1700000000000 ''2023-11-14T22:13:20.000Z'' ()] NoFile)))"
proof -
  have empty: "readQuotes (NoFile :: unit data_file) = []"
    by (simp add: readQuotes_def)
  have numeral: "Number_toString 1700000000000 = ''1700000000000''"
    by (simp add: Number_toString_def digits.simps digit_char_def)
  show ?thesis
    by (simp add: readQuotes_post empty numeral)
qed

text \<open>
  Deleting keeps the order of the records that stay and creating puts the new record in
  front, so what is stored is always a subsequence of the records created, latest first,
  followed by what was stored at the start.
\<close>

lemma serve_newest_first:
  "subseq (readQuotes (serve rs f)) (posted rs @ readQuotes f)"
proof (induction rs arbitrary: f)
  case Nil
  show ?case by simp
next
  case (Cons r rs)
  have ih: "subseq (readQuotes (serve rs (snd (handle r f))))
              (posted rs @ readQuotes (snd (handle r f)))"
    by (rule Cons.IH)
  show ?case
  proof (cases r)
    case GET
    with ih show ?thesis by (simp add: readQuotes_get)
  next
    case (POST now isoNow body)
    with ih show ?thesis by (simp add: readQuotes_post)
  next
    case (DELETE i)
    have "subseq (posted rs @ readQuotes (snd (delete_quotes i f))) (posted rs @ readQuotes f)"
      by (simp add: readQuotes_delete subseq_append')
    with ih DELETE show ?thesis
      by (auto intro: subseq_order.order_trans)
  qed
qed

text \<open>
  Claim C7. Whatever the data file holds, creating answers with the new record and
  persists the collection with the new record in front of the records read, in their
  order; listing right after returns that collection, so its first record is the one
  just created. After any sequence of requests the persisted collection is in
  latest-created-first order.
\<close>

theorem create_prepends:
  "post_quotes now isoNow body f =
     (Created201 \<lparr>quote_id = Number_toString now, createdAt = isoNow, payload = body\<rparr>,
      Holds (Serialised
        (\<lparr>quote_id = Number_toString now, createdAt = isoNow, payload = body\<rparr> # readQuotes f)))
   \<and> fst (get_quotes (snd (post_quotes now isoNow body f))) =
       Ok200 (\<lparr>quote_id = Number_toString now, createdAt = isoNow, payload = body\<rparr> # readQuotes f)
   \<and> subseq (readQuotes (serve rs f)) (posted rs @ readQuotes f)"
proof -
  have "fst (get_quotes (snd (post_quotes now isoNow body f))) =
       Ok200 (\<lparr>quote_id = Number_toString now, createdAt = isoNow, payload = body\<rparr> # readQuotes f)"
    by (simp add: get_quotes_def readQuotes_post)
  moreover have "post_quotes now isoNow body f =
     (Created201 \<lparr>quote_id = Number_toString now, createdAt = isoNow, payload = body\<rparr>,
      Holds (Serialised
        (\<lparr>quote_id = Number_toString now, createdAt = isoNow, payload = body\<rparr> # readQuotes f)))"
    by (simp add: post_quotes_def Let_def writeQuotes_def JSON_stringify_def)
  ultimately show ?thesis using serve_newest_first by blast
qed

text \<open>
  Claim C8. Deleting answers "deleted" (204) exactly when a record with the identifier is
  in the collection and "not found" (404) otherwise. So deleting the identifier of a
  record just created answers "deleted", and deleting it once more answers "not found".
\<close>

theorem delete_found_iff_present:
  "fst (delete_quotes i f) =
     (if i \<in> quote_id ` set (readQuotes f) then NoContent204 else NotFound404)
   \<and> fst (delete_quotes (Number_toString now) (snd (post_quotes now isoNow body f)))
       = NoContent204
   \<and> fst (delete_quotes (Number_toString now)
        (snd (delete_quotes (Number_toString now) (snd (post_quotes now isoNow body f)))))
       = NotFound404"
  by (auto simp: delete_response readQuotes_post readQuotes_delete)

text \<open>
  Claim C9. Listing always answers with a collection and leaves the data file as it is:
  the empty collection when the file is missing, unreadable or not parseable, and the
  stored collection otherwise.
\<close>

theorem list_never_fails:
  "get_quotes (NoFile :: 'b data_file) = (Ok200 [], NoFile)
   \<and> get_quotes (Unreadable :: 'b data_file) = (Ok200 [], Unreadable)
   \<and> get_quotes (Holds Malformed :: 'b data_file) = (Ok200 [], Holds Malformed)
   \<and> get_quotes (Holds (Serialised quotes)) = (Ok200 quotes, Holds (Serialised quotes))
   \<and> get_quotes f = (Ok200 (readQuotes f), f)"
  by (simp add: get_quotes_def readQuotes_def)

text \<open>
  Claim C10. Deleting an identifier that no record of the collection has answers "not
  found" and writes nothing: the data file is exactly what it was.
\<close>

theorem delete_not_found_leaves_store:
  assumes "i \<notin> quote_id ` set (readQuotes f)"
  shows "delete_quotes i f = (NotFound404, f)"
  using assms by (auto simp: delete_quotes_def Let_def filter_same_length)

text \<open>
  The theorem on a file holding one record with identifier \<open>1700000000000\<close>, asked to
  delete \<open>42\<close>.
\<close>

theorem delete_not_found_leaves_store_witness:
  "''42'' \<notin> quote_id ` set (readQuotes (Holds (Serialised
       [\<lparr>quote_id = ''1700000000000'', createdAt = ''2023-11-14T22:13:20.000Z'', payload = ()\<rparr>])))
   \<and> delete_quotes ''42'' (Holds (Serialised
       [\<lparr>quote_id = ''1700000000000'', createdAt = ''2023-11-14T22:13:20.000Z'', payload = ()\<rparr>]))
     = (NotFound404, Holds (Serialised
       [\<lparr>quote_id = ''1700000000000'', createdAt = ''2023-11-14T22:13:20.000Z'', payload = ()\<rparr>]))"
proof -
  let ?f = "Holds (Serialised
       [\<lparr>quote_id = ''1700000000000'', createdAt = ''2023-11-14T22:13:20.000Z'', payload = ()\<rparr>])"
  have h: "''42'' \<notin> quote_id ` set (readQuotes ?f)"
    by (simp add: readQuotes_def)
  show ?thesis
    using h delete_not_found_leaves_store [OF h] by simp
qed

end
